theory Spec2Isabelle
  imports Main "HOL-Library.Word" "HOL-Library.Finite_Map" "HOL-Library.Char_ord"
    "HOL-Library.List_Lexorder"
begin

section \<open>Untyped values\<close>

text \<open>
  A Go \<^verbatim>\<open>float64\<close> is kept as its 64 IEEE 754 bits; \<^verbatim>\<open>int\<close> and \<^verbatim>\<open>int64\<close>
  are 64-bit words read as two's complement. A value of static type
  \<^verbatim>\<open>any\<close> that was decoded from JSON holds one of six dynamic types:
  \<^verbatim>\<open>nil\<close>, \<^verbatim>\<open>bool\<close>, \<^verbatim>\<open>float64\<close>, \<^verbatim>\<open>string\<close>,
  \<^verbatim>\<open>[]any\<close> and \<^verbatim>\<open>map[string]any\<close>. A Go map is a finite map: its keys are
  distinct and it has no order. A Go string is a sequence of bytes, as \<^typ>\<open>string\<close> is.
  A value of another dynamic type that is written to JSON in the same way (a
  \<^verbatim>\<open>[]string\<close>, say) is represented by the value of these six that is written so.
\<close>

type_synonym float64 = "64 word"

type_synonym go_int = "64 word"

datatype any =
    AnyNil
  | AnyBool bool
  | AnyFloat float64
  | AnyString string
  | AnySlice "any list"
  | AnyMap "(string, any) fmap"

type_synonym gomap = "(string, any) fmap"

section \<open>The fetch example (part_000): context messages of the first generation\<close>

text \<open>
  The declarations of \<^verbatim>\<open>langfuse.Usage\<close>, \<^verbatim>\<open>langfuse.ObservationDetails\<close> and
  \<^verbatim>\<open>langfuse.TraceWithFullDetails\<close> are not among the sources; their fields are those
  that the README of the fetch example lists. \<^verbatim>\<open>Input\<close> and \<^verbatim>\<open>Output\<close> have type
  \<^verbatim>\<open>any\<close>, as the type assertions on them in \<^verbatim>\<open>main\<close> require. A pointer field is
  an option. The program reads \<^verbatim>\<open>Type\<close>, \<^verbatim>\<open>Input\<close> and \<^verbatim>\<open>Output\<close> of an
  observation and \<^verbatim>\<open>Observations\<close> of a trace.
\<close>

record Usage =
  usage_Input :: "go_int option"
  usage_Output :: "go_int option"
  usage_Total :: "go_int option"

record ObservationDetails =
  obs_ID :: string
  obs_TraceID :: string
  obs_Type :: string
  obs_Name :: "string option"
  obs_StartTime :: string
  obs_EndTime :: "string option"
  obs_Input :: any
  obs_Output :: any
  obs_Metadata :: "gomap option"
  obs_Level :: "string option"
  obs_StatusMessage :: "string option"
  obs_ParentObservationID :: "string option"
  obs_Model :: "string option"
  obs_ModelParameters :: "gomap option"
  obs_Usage :: "Usage option"

record TraceWithFullDetails =
  trace_ID :: string
  trace_Name :: "string option"
  trace_UserID :: "string option"
  trace_SessionID :: "string option"
  trace_Timestamp :: string
  trace_Input :: any
  trace_Output :: any
  trace_Metadata :: "gomap option"
  trace_Tags :: "string list"
  trace_Observations :: "ObservationDetails list"
  trace_Scores :: "any list"

text \<open>
  The ways the second step of \<^verbatim>\<open>main\<close> stops the program: \<^verbatim>\<open>GetTrace\<close> failed
  (the error is only logged, and reading \<^verbatim>\<open>trace.Observations\<close> through the nil
  pointer it returned panics), or \<^verbatim>\<open>log.Fatalf("No generation found in trace")\<close>.
\<close>

datatype fetch_error = FetchNilPointerDereference | NoGenerationFound

text \<open>
  The scan \<^verbatim>\<open>for i := 0; i < len(trace.Observations); i++\<close> with its \<^verbatim>\<open>break\<close>;
  \<open>None\<close> is the nil pointer \<^verbatim>\<open>firstGeneration\<close> keeps when no element matches.
\<close>

fun firstGeneration :: "ObservationDetails list \<Rightarrow> ObservationDetails option" where
  "firstGeneration [] = None"
| "firstGeneration (ob # rest) =
     (if obs_Type ob = ''GENERATION'' then Some ob else firstGeneration rest)"

text \<open>
  A message is a \<^verbatim>\<open>map[string]any\<close>. The loop over an array appends the elements
  that pass the type assertion \<^verbatim>\<open>item.(map[string]any)\<close> to \<^verbatim>\<open>contextMessages\<close>;
  the debug prints are left out.
\<close>

type_synonym message = gomap

fun appendObjects :: "any list \<Rightarrow> message list \<Rightarrow> message list" where
  "appendObjects [] contextMessages = contextMessages"
| "appendObjects (item # rest) contextMessages =
     (case item of
        AnyMap msgMap \<Rightarrow> appendObjects rest (contextMessages @ [msgMap])
      | _ \<Rightarrow> appendObjects rest contextMessages)"

definition roleMessage :: "string \<Rightarrow> any \<Rightarrow> message" where
  "roleMessage role content =
     fmap_of_list [(''role'', AnyString role), (''content'', content)]"

text \<open>Lines 85 to 104: the input is an array, or else it is wrapped as a user message.\<close>

definition addInput :: "any \<Rightarrow> message list \<Rightarrow> message list" where
  "addInput input contextMessages =
     (case input of
        AnyNil \<Rightarrow> contextMessages
      | AnySlice inputArray \<Rightarrow> appendObjects inputArray contextMessages
      | _ \<Rightarrow> contextMessages @ [roleMessage ''user'' input])"

text \<open>
  Lines 107 to 131: the output is an array, or a single object, or else it is wrapped as
  an assistant message.
\<close>

definition addOutput :: "any \<Rightarrow> message list \<Rightarrow> message list" where
  "addOutput output contextMessages =
     (case output of
        AnyNil \<Rightarrow> contextMessages
      | AnySlice outputArray \<Rightarrow> appendObjects outputArray contextMessages
      | AnyMap outputMap \<Rightarrow> contextMessages @ [outputMap]
      | _ \<Rightarrow> contextMessages @ [roleMessage ''assistant'' output])"

text \<open>
  Step 2 of \<^verbatim>\<open>main\<close>, from the fetched trace (\<open>None\<close> when \<^verbatim>\<open>GetTrace\<close>
  failed) to \<^verbatim>\<open>contextMessages\<close>.
\<close>

definition contextMessages :: "TraceWithFullDetails option \<Rightarrow> fetch_error + message list" where
  "contextMessages trace =
     (case trace of
        None \<Rightarrow> Inl FetchNilPointerDereference
      | Some tr \<Rightarrow>
          (case firstGeneration (trace_Observations tr) of
             None \<Rightarrow> Inl NoGenerationFound
           | Some gen \<Rightarrow> Inr (addOutput (obs_Output gen) (addInput (obs_Input gen) []))))"

text \<open>
  The spec's \<^verbatim>\<open>normalize(value, fieldRole)\<close> names the two blocks above, each run on
  an empty message list.
\<close>

datatype fieldRole = InputField | OutputField

definition normalizeField :: "any \<Rightarrow> fieldRole \<Rightarrow> message list" where
  "normalizeField v r = (case r of InputField \<Rightarrow> addInput v [] | OutputField \<Rightarrow> addOutput v [])"

definition isObject :: "any \<Rightarrow> bool" where
  "isObject v = (case v of AnyMap _ \<Rightarrow> True | _ \<Rightarrow> False)"

text \<open>An observation and a trace for the examples: every field not given is empty.\<close>

definition exampleObservation :: "string \<Rightarrow> any \<Rightarrow> any \<Rightarrow> ObservationDetails" where
  "exampleObservation ty input output =
     \<lparr>obs_ID = ''o'', obs_TraceID = ''t'', obs_Type = ty, obs_Name = None,
      obs_StartTime = [], obs_EndTime = None, obs_Input = input, obs_Output = output,
      obs_Metadata = None, obs_Level = None, obs_StatusMessage = None,
      obs_ParentObservationID = None, obs_Model = None, obs_ModelParameters = None,
      obs_Usage = None\<rparr>"

definition exampleTrace :: "ObservationDetails list \<Rightarrow> TraceWithFullDetails" where
  "exampleTrace obs =
     \<lparr>trace_ID = ''t'', trace_Name = None, trace_UserID = None, trace_SessionID = None,
      trace_Timestamp = [], trace_Input = AnyNil, trace_Output = AnyNil,
      trace_Metadata = None, trace_Tags = [], trace_Observations = obs,
      trace_Scores = []\<rparr>"

section \<open>The replay-enabled chat demo (part_003): the replay context\<close>

text \<open>
  A slice value that the program only reads is a list, with \<open>None\<close> for the nil
  slice; a map value is a finite map, with \<open>None\<close> for the nil map. No function
  of the program writes into a map.
\<close>

record ModelConfig =
  mc_Model :: string
  mc_BaseURL :: string
  mc_Temperature :: float64
  mc_MaxTokens :: go_int
  mc_TopP :: float64
  mc_FrequencyPenalty :: float64
  mc_PresencePenalty :: float64
  mc_ExtraParams :: "gomap option"

record SystemPrompt =
  sp_Content :: string
  sp_Role :: string
  sp_Metadata :: "gomap option"

record ToolDefinition =
  td_Type :: string
  td_Function :: "gomap option"

record UserMessage =
  um_Role :: string
  um_Content :: string

record LLMResponse =
  llm_Role :: string
  llm_Content :: string
  llm_ToolCalls :: bool
  llm_Reasoning :: string
  llm_FinishReason :: string

record ToolCallExecution =
  tc_ToolName :: string
  tc_ToolID :: string
  tc_Arguments :: "gomap option"
  tc_Result :: string
  tc_StartTime :: string
  tc_EndTime :: string
  tc_DurationMs :: go_int
  tc_Success :: bool
  tc_Error :: string

record TokenUsage =
  tu_PromptTokens :: go_int
  tu_CompletionTokens :: go_int
  tu_TotalTokens :: go_int

record ConversationTurn =
  ct_Round :: go_int
  ct_Timestamp :: string
  ct_TurnID :: string
  ct_UserInput :: UserMessage
  ct_LLMResponse :: LLMResponse
  ct_ToolCalls :: "ToolCallExecution list option"
  ct_TokenUsage :: TokenUsage

record SessionMetadata =
  sm_Environment :: string
  sm_Tags :: "string list option"
  sm_CustomFields :: "gomap option"
  sm_ResponseTimeMs :: go_int
  sm_TotalCost :: float64
  sm_AdditionalInfo :: "gomap option"

text \<open>
  A \<^verbatim>\<open>time.Time\<close>: the wall-clock instant in nanoseconds since the Unix epoch, the
  offset of its location in seconds east of UTC, and the monotonic clock reading in
  nanoseconds that \<^verbatim>\<open>time.Now()\<close> attaches (an \<^verbatim>\<open>int64\<close>).
\<close>

record Time =
  time_unixNano :: int
  time_offset :: int
  time_mono :: "64 word option"

text \<open>
  The two slice fields of a \<^verbatim>\<open>ReplayContext\<close> are type parameters: slice headers
  into the store for the value \<^verbatim>\<open>Build\<close> returns, lists for a context read as a
  value.
\<close>

record ('tools, 'history) ReplayContext =
  rc_SessionID :: string
  rc_UserID :: string
  rc_TraceID :: string
  rc_Timestamp :: Time
  rc_ModelConfig :: ModelConfig
  rc_SystemPrompt :: SystemPrompt
  rc_Tools :: 'tools
  rc_ConversationHistory :: 'history
  rc_Metadata :: SessionMetadata

type_synonym ReplayContextValue =
  "(ToolDefinition list option, ConversationTurn list option) ReplayContext"

definition elems :: "'a list option \<Rightarrow> 'a list" where
  "elems s = (case s of None \<Rightarrow> [] | Some xs \<Rightarrow> xs)"

subsection \<open>ToOpenAIMessages\<close>

text \<open>
  The fields of \<^verbatim>\<open>openai.ChatCompletionMessage\<close> that the program sets; the others
  keep their zero values. The role constants are those of the go-openai package.
\<close>

record ChatCompletionMessage =
  Role :: string
  Content :: string
  ToolCallID :: string

definition ChatMessageRoleSystem :: string where "ChatMessageRoleSystem = ''system''"
definition ChatMessageRoleUser :: string where "ChatMessageRoleUser = ''user''"
definition ChatMessageRoleAssistant :: string where "ChatMessageRoleAssistant = ''assistant''"
definition ChatMessageRoleTool :: string where "ChatMessageRoleTool = ''tool''"

text \<open>The inner loop \<^verbatim>\<open>for _, tc := range turn.ToolCalls\<close>.\<close>

fun appendToolMessages ::
  "ToolCallExecution list \<Rightarrow> ChatCompletionMessage list \<Rightarrow> ChatCompletionMessage list" where
  "appendToolMessages [] messages = messages"
| "appendToolMessages (tc # rest) messages =
     appendToolMessages rest
       (messages @ [\<lparr>Role = ChatMessageRoleTool, Content = tc_Result tc,
                      ToolCallID = tc_ToolID tc\<rparr>])"

text \<open>The outer loop \<^verbatim>\<open>for _, turn := range r.ConversationHistory\<close>.\<close>

fun appendTurnMessages ::
  "ConversationTurn list \<Rightarrow> ChatCompletionMessage list \<Rightarrow> ChatCompletionMessage list" where
  "appendTurnMessages [] messages = messages"
| "appendTurnMessages (turn # rest) messages =
     appendTurnMessages rest
       (appendToolMessages (elems (ct_ToolCalls turn))
          (messages
            @ [\<lparr>Role = ChatMessageRoleUser, Content = um_Content (ct_UserInput turn),
                 ToolCallID = []\<rparr>]
            @ [\<lparr>Role = ChatMessageRoleAssistant, Content = llm_Content (ct_LLMResponse turn),
                 ToolCallID = []\<rparr>]))"

definition ToOpenAIMessages :: "ReplayContextValue \<Rightarrow> ChatCompletionMessage list" where
  "ToOpenAIMessages r =
     appendTurnMessages (elems (rc_ConversationHistory r))
       [\<lparr>Role = ChatMessageRoleSystem, Content = sp_Content (rc_SystemPrompt r),
         ToolCallID = []\<rparr>]"

text \<open>
  The projection in the words of the spec: the system message, then for each turn its
  user message, its assistant message and one tool message per tool call.
\<close>

definition systemMessage :: "ReplayContextValue \<Rightarrow> ChatCompletionMessage" where
  "systemMessage r = \<lparr>Role = ''system'', Content = sp_Content (rc_SystemPrompt r), ToolCallID = []\<rparr>"

definition toolMessage :: "ToolCallExecution \<Rightarrow> ChatCompletionMessage" where
  "toolMessage tc = \<lparr>Role = ''tool'', Content = tc_Result tc, ToolCallID = tc_ToolID tc\<rparr>"

definition turnMessages :: "ConversationTurn \<Rightarrow> ChatCompletionMessage list" where
  "turnMessages turn =
     [\<lparr>Role = ''user'', Content = um_Content (ct_UserInput turn), ToolCallID = []\<rparr>,
      \<lparr>Role = ''assistant'', Content = llm_Content (ct_LLMResponse turn), ToolCallID = []\<rparr>]
     @ map toolMessage (elems (ct_ToolCalls turn))"

subsection \<open>The builder and the store\<close>

text \<open>
  The builder is one object behind a pointer; its two slice fields share their backing
  arrays with every \<^verbatim>\<open>ReplayContext\<close> that \<^verbatim>\<open>Build\<close> has returned. So the slices
  are slice headers (the address of the backing array, or \<open>None\<close> for nil; length;
  capacity) and the backing arrays live in a store. An array is a list as long as its
  capacity; \<open>st_next\<close> is the next free address.
\<close>

record slice =
  slice_ptr :: "nat option"
  slice_len :: nat
  slice_cap :: nat

record ContextBuilder =
  b_sessionID :: string
  b_userID :: string
  b_modelConfig :: ModelConfig
  b_systemPrompt :: SystemPrompt
  b_tools :: slice
  b_conversationCtx :: slice
  b_baseURL :: string

record state =
  st_builder :: ContextBuilder
  st_turnArrays :: "nat \<Rightarrow> ConversationTurn list"
  st_toolArrays :: "nat \<Rightarrow> ToolDefinition list"
  st_next :: nat

datatype panic = NilPointerDereference

text \<open>The zero values that fill a new array and the fields a literal leaves out.\<close>

definition zeroSystemPrompt :: SystemPrompt where
  "zeroSystemPrompt = \<lparr>sp_Content = [], sp_Role = [], sp_Metadata = None\<rparr>"

definition zeroToolDefinition :: ToolDefinition where
  "zeroToolDefinition = \<lparr>td_Type = [], td_Function = None\<rparr>"

definition zeroTurn :: ConversationTurn where
  "zeroTurn =
     \<lparr>ct_Round = 0, ct_Timestamp = [], ct_TurnID = [],
      ct_UserInput = \<lparr>um_Role = [], um_Content = []\<rparr>,
      ct_LLMResponse = \<lparr>llm_Role = [], llm_Content = [], llm_ToolCalls = False,
        llm_Reasoning = [], llm_FinishReason = []\<rparr>,
      ct_ToolCalls = None,
      ct_TokenUsage = \<lparr>tu_PromptTokens = 0, tu_CompletionTokens = 0, tu_TotalTokens = 0\<rparr>\<rparr>"

definition nilSlice :: slice where
  "nilSlice = \<lparr>slice_ptr = None, slice_len = 0, slice_cap = 0\<rparr>"

text \<open>
  \<^verbatim>\<open>NewContextBuilder\<close>: \<^verbatim>\<open>0.7\<close> is the float64 with bits 3FE6666666666666;
  \<^verbatim>\<open>make([]ConversationTurn, 0)\<close> is a non-nil slice of capacity 0.
\<close>

definition NewContextBuilder :: "string \<Rightarrow> string \<Rightarrow> string \<Rightarrow> state" where
  "NewContextBuilder userID baseURL model =
     \<lparr>st_builder =
        \<lparr>b_sessionID = [], b_userID = userID,
         b_modelConfig =
           \<lparr>mc_Model = model, mc_BaseURL = baseURL, mc_Temperature = 0x3FE6666666666666,
            mc_MaxTokens = 2000, mc_TopP = 0, mc_FrequencyPenalty = 0,
            mc_PresencePenalty = 0, mc_ExtraParams = None\<rparr>,
         b_systemPrompt = zeroSystemPrompt,
         b_tools = nilSlice,
         b_conversationCtx = \<lparr>slice_ptr = Some 0, slice_len = 0, slice_cap = 0\<rparr>,
         b_baseURL = baseURL\<rparr>,
      st_turnArrays = (\<lambda>a. []), st_toolArrays = (\<lambda>a. []), st_next = 1\<rparr>"

definition SetSessionID :: "string \<Rightarrow> state \<Rightarrow> state" where
  "SetSessionID sessionID st = st\<lparr>st_builder := (st_builder st)\<lparr>b_sessionID := sessionID\<rparr>\<rparr>"

definition SetSystemPrompt :: "string \<Rightarrow> gomap option \<Rightarrow> state \<Rightarrow> state" where
  "SetSystemPrompt content metadata st =
     st\<lparr>st_builder := (st_builder st)\<lparr>b_systemPrompt :=
        \<lparr>sp_Content = content, sp_Role = ''system'', sp_Metadata = metadata\<rparr>\<rparr>\<rparr>"

definition SetModelParams :: "float64 \<Rightarrow> go_int \<Rightarrow> state \<Rightarrow> state" where
  "SetModelParams temperature maxTokens st =
     st\<lparr>st_builder := (st_builder st)\<lparr>b_modelConfig :=
        (b_modelConfig (st_builder st))\<lparr>mc_Temperature := temperature,
           mc_MaxTokens := maxTokens\<rparr>\<rparr>\<rparr>"

text \<open>
  \<^verbatim>\<open>openai.Tool\<close> and \<^verbatim>\<open>openai.FunctionDefinition\<close> of the go-openai package, with
  the fields \<^verbatim>\<open>SetTools\<close> reads. \<^verbatim>\<open>Function\<close> is a pointer: reading
  \<^verbatim>\<open>tool.Function.Name\<close> through nil panics.
\<close>

record FunctionDefinition =
  fd_Name :: string
  fd_Description :: string
  fd_Parameters :: any

record Tool =
  tool_Type :: string
  tool_Function :: "FunctionDefinition option"

definition toolDefinitionOf :: "string \<Rightarrow> FunctionDefinition \<Rightarrow> ToolDefinition" where
  "toolDefinitionOf ty f =
     \<lparr>td_Type = ty,
      td_Function = Some (fmap_of_list
        [(''name'', AnyString (fd_Name f)),
         (''description'', AnyString (fd_Description f)),
         (''parameters'', fd_Parameters f)])\<rparr>"

text \<open>The loop \<^verbatim>\<open>for i, tool := range tools\<close> writing \<^verbatim>\<open>b.tools[i]\<close> in the array at \<open>a\<close>.\<close>

fun setToolsLoop :: "nat \<Rightarrow> nat \<Rightarrow> Tool list \<Rightarrow> state \<Rightarrow> panic + state" where
  "setToolsLoop a i [] st = Inr st"
| "setToolsLoop a i (tool # rest) st =
     (case tool_Function tool of
        None \<Rightarrow> Inl NilPointerDereference
      | Some f \<Rightarrow>
          setToolsLoop a (Suc i) rest
            (st\<lparr>st_toolArrays := (st_toolArrays st)
                 (a := (st_toolArrays st a)[i := toolDefinitionOf (tool_Type tool) f])\<rparr>))"

definition SetTools :: "Tool list \<Rightarrow> state \<Rightarrow> panic + state" where
  "SetTools tools st =
     (let a = st_next st; n = length tools in
      setToolsLoop a 0 tools
        (st\<lparr>st_builder := (st_builder st)
               \<lparr>b_tools := \<lparr>slice_ptr = Some a, slice_len = n, slice_cap = n\<rparr>\<rparr>,
            st_toolArrays := (st_toolArrays st)(a := replicate n zeroToolDefinition),
            st_next := Suc a\<rparr>))"

text \<open>
  The built-in \<^verbatim>\<open>append\<close> on the history slice. With room left, it writes the
  element in place, behind the slice's length, and returns a longer header on the same
  array. Otherwise it copies the elements to a new array; how much larger the new
  array is belongs to the runtime, so the policy \<open>grow\<close> (from the old capacity) is
  a parameter, and the new capacity is at least the new length.
\<close>

definition appendTurn ::
  "(nat \<Rightarrow> nat) \<Rightarrow> slice \<Rightarrow> ConversationTurn \<Rightarrow> state \<Rightarrow> slice \<times> state" where
  "appendTurn grow s x st =
     (let old = (case slice_ptr s of None \<Rightarrow> [] | Some a \<Rightarrow> st_turnArrays st a) in
      if slice_len s < slice_cap s then
        (case slice_ptr s of
           Some a \<Rightarrow>
             (s\<lparr>slice_len := Suc (slice_len s)\<rparr>,
              st\<lparr>st_turnArrays := (st_turnArrays st)(a := old[slice_len s := x])\<rparr>)
         | None \<Rightarrow> (s, st))
      else
        (let newcap = max (grow (slice_cap s)) (Suc (slice_len s)); a = st_next st in
         (\<lparr>slice_ptr = Some a, slice_len = Suc (slice_len s), slice_cap = newcap\<rparr>,
          st\<lparr>st_turnArrays := (st_turnArrays st)
                 (a := take (slice_len s) old @ [x]
                       @ replicate (newcap - Suc (slice_len s)) zeroTurn),
             st_next := Suc a\<rparr>)))"

text \<open>
  \<^verbatim>\<open>AddTurn\<close>; \<open>timestamp\<close> is the text \<^verbatim>\<open>time.Now().Format(time.RFC3339Nano)\<close>
  gives at the call.
\<close>

definition newTurn ::
  "go_int \<Rightarrow> string \<Rightarrow> string \<Rightarrow> ToolCallExecution list option \<Rightarrow> TokenUsage \<Rightarrow> string \<Rightarrow>
   string \<Rightarrow> ConversationTurn" where
  "newTurn roundNo userMsg assistantResp toolCalls tokenUsage traceID timestamp =
     \<lparr>ct_Round = roundNo, ct_Timestamp = timestamp, ct_TurnID = traceID,
      ct_UserInput = \<lparr>um_Role = ''user'', um_Content = userMsg\<rparr>,
      ct_LLMResponse = \<lparr>llm_Role = ''assistant'', llm_Content = assistantResp,
        llm_ToolCalls = (length (elems toolCalls) > 0),
        llm_Reasoning = [], llm_FinishReason = []\<rparr>,
      ct_ToolCalls = toolCalls,
      ct_TokenUsage = tokenUsage\<rparr>"

definition AddTurn ::
  "(nat \<Rightarrow> nat) \<Rightarrow> go_int \<Rightarrow> string \<Rightarrow> string \<Rightarrow> ToolCallExecution list option \<Rightarrow> TokenUsage \<Rightarrow>
   string \<Rightarrow> string \<Rightarrow> state \<Rightarrow> state" where
  "AddTurn grow roundNo userMsg assistantResp toolCalls tokenUsage traceID timestamp st =
     (let turn = newTurn roundNo userMsg assistantResp toolCalls tokenUsage traceID timestamp;
          (s, st') = appendTurn grow (b_conversationCtx (st_builder st)) turn st
      in st'\<lparr>st_builder := (st_builder st')\<lparr>b_conversationCtx := s\<rparr>\<rparr>)"

text \<open>\<^verbatim>\<open>Build\<close>; \<open>now\<close> is the value of \<^verbatim>\<open>time.Now()\<close> at the call.\<close>

definition Build :: "string \<Rightarrow> Time \<Rightarrow> state \<Rightarrow> (slice, slice) ReplayContext" where
  "Build traceID now st =
     \<lparr>rc_SessionID = b_sessionID (st_builder st),
      rc_UserID = b_userID (st_builder st),
      rc_TraceID = traceID,
      rc_Timestamp = now,
      rc_ModelConfig = b_modelConfig (st_builder st),
      rc_SystemPrompt = b_systemPrompt (st_builder st),
      rc_Tools = b_tools (st_builder st),
      rc_ConversationHistory = b_conversationCtx (st_builder st),
      rc_Metadata =
        \<lparr>sm_Environment = [], sm_Tags = Some [''replay'', ''chat''], sm_CustomFields = None,
         sm_ResponseTimeMs = 0, sm_TotalCost = 0, sm_AdditionalInfo = None\<rparr>\<rparr>"

text \<open>
  Reading through a slice header: the first \<open>slice_len\<close> elements of its array. What
  a reader of a \<^verbatim>\<open>ReplayContext\<close> sees in a given store is its value.
\<close>

definition loadSlice :: "(nat \<Rightarrow> 'a list) \<Rightarrow> slice \<Rightarrow> 'a list option" where
  "loadSlice arrays s =
     (case slice_ptr s of None \<Rightarrow> None | Some a \<Rightarrow> Some (take (slice_len s) (arrays a)))"

definition load :: "state \<Rightarrow> (slice, slice) ReplayContext \<Rightarrow> ReplayContextValue" where
  "load st r =
     \<lparr>rc_SessionID = rc_SessionID r, rc_UserID = rc_UserID r, rc_TraceID = rc_TraceID r,
      rc_Timestamp = rc_Timestamp r, rc_ModelConfig = rc_ModelConfig r,
      rc_SystemPrompt = rc_SystemPrompt r,
      rc_Tools = loadSlice (st_toolArrays st) (rc_Tools r),
      rc_ConversationHistory = loadSlice (st_turnArrays st) (rc_ConversationHistory r),
      rc_Metadata = rc_Metadata r\<rparr>"

definition history :: "state \<Rightarrow> ConversationTurn list" where
  "history st = elems (loadSlice (st_turnArrays st) (b_conversationCtx (st_builder st)))"

text \<open>A sequence of calls on the builder, stopped by the first panic.\<close>

datatype builder_call =
    CallSetSessionID string
  | CallSetSystemPrompt string "gomap option"
  | CallSetTools "Tool list"
  | CallSetModelParams float64 go_int
  | CallAddTurn go_int string string "ToolCallExecution list option" TokenUsage string string

fun call :: "(nat \<Rightarrow> nat) \<Rightarrow> builder_call \<Rightarrow> state \<Rightarrow> panic + state" where
  "call grow (CallSetSessionID sessionID) st = Inr (SetSessionID sessionID st)"
| "call grow (CallSetSystemPrompt content metadata) st = Inr (SetSystemPrompt content metadata st)"
| "call grow (CallSetTools tools) st = SetTools tools st"
| "call grow (CallSetModelParams temperature maxTokens) st =
     Inr (SetModelParams temperature maxTokens st)"
| "call grow (CallAddTurn roundNo userMsg assistantResp toolCalls tokenUsage traceID timestamp) st =
     Inr (AddTurn grow roundNo userMsg assistantResp toolCalls tokenUsage traceID timestamp st)"

fun calls :: "(nat \<Rightarrow> nat) \<Rightarrow> builder_call list \<Rightarrow> state \<Rightarrow> panic + state" where
  "calls grow [] st = Inr st"
| "calls grow (c # cs) st =
     (case call grow c st of Inl e \<Rightarrow> Inl e | Inr st' \<Rightarrow> calls grow cs st')"

text \<open>The turns that the \<^verbatim>\<open>AddTurn\<close> calls of a sequence add, in order.\<close>

fun turnsOf :: "builder_call list \<Rightarrow> ConversationTurn list" where
  "turnsOf [] = []"
| "turnsOf (CallAddTurn roundNo userMsg assistantResp toolCalls tokenUsage traceID timestamp # cs) =
     newTurn roundNo userMsg assistantResp toolCalls tokenUsage traceID timestamp # turnsOf cs"
| "turnsOf (c # cs) = turnsOf cs"

definition isSetSystemPrompt :: "builder_call \<Rightarrow> bool" where
  "isSetSystemPrompt c = (case c of CallSetSystemPrompt content metadata \<Rightarrow> True | _ \<Rightarrow> False)"

text \<open>
  The invariant of the store: the history slice of the builder points to an allocated
  array as long as its capacity, and the tools slice is nil or allocated.
\<close>

definition wf :: "state \<Rightarrow> bool" where
  "wf st =
     ((case slice_ptr (b_conversationCtx (st_builder st)) of
         None \<Rightarrow> False
       | Some a \<Rightarrow>
           a < st_next st \<and>
           slice_len (b_conversationCtx (st_builder st)) \<le> slice_cap (b_conversationCtx (st_builder st)) \<and>
           length (st_turnArrays st a) = slice_cap (b_conversationCtx (st_builder st))) \<and>
      (case slice_ptr (b_tools (st_builder st)) of
         None \<Rightarrow> True
       | Some a \<Rightarrow> a < st_next st))"

text \<open>
  A slice header, taken from the builder earlier, that later calls keep intact: it is
  allocated, and no longer than the builder's history slice if it shares its array.
\<close>

definition kept :: "state \<Rightarrow> slice \<Rightarrow> bool" where
  "kept st s =
     (case slice_ptr s of
        None \<Rightarrow> True
      | Some a \<Rightarrow>
          a < st_next st \<and>
          (slice_ptr (b_conversationCtx (st_builder st)) \<noteq> Some a \<or>
           slice_len s \<le> slice_len (b_conversationCtx (st_builder st))))"

definition allocated :: "state \<Rightarrow> slice \<Rightarrow> bool" where
  "allocated st t = (case slice_ptr t of None \<Rightarrow> True | Some a \<Rightarrow> a < st_next st)"

text \<open>
  The builder in the words of the spec, with no store and no sharing: each call changes
  one field of a context value, the last write wins, and \<^verbatim>\<open>addTurn\<close> appends one turn.
\<close>

definition toolDefinitionOfTool :: "Tool \<Rightarrow> ToolDefinition" where
  "toolDefinitionOfTool tool =
     (case tool_Function tool of
        None \<Rightarrow> zeroToolDefinition
      | Some f \<Rightarrow> toolDefinitionOf (tool_Type tool) f)"

definition specNew :: "string \<Rightarrow> string \<Rightarrow> string \<Rightarrow> string \<Rightarrow> Time \<Rightarrow> ReplayContextValue" where
  "specNew userID baseURL model traceID now =
     \<lparr>rc_SessionID = [], rc_UserID = userID, rc_TraceID = traceID, rc_Timestamp = now,
      rc_ModelConfig =
        \<lparr>mc_Model = model, mc_BaseURL = baseURL, mc_Temperature = 0x3FE6666666666666,
         mc_MaxTokens = 2000, mc_TopP = 0, mc_FrequencyPenalty = 0,
         mc_PresencePenalty = 0, mc_ExtraParams = None\<rparr>,
      rc_SystemPrompt = \<lparr>sp_Content = [], sp_Role = [], sp_Metadata = None\<rparr>,
      rc_Tools = None,
      rc_ConversationHistory = Some [],
      rc_Metadata =
        \<lparr>sm_Environment = [], sm_Tags = Some [''replay'', ''chat''], sm_CustomFields = None,
         sm_ResponseTimeMs = 0, sm_TotalCost = 0, sm_AdditionalInfo = None\<rparr>\<rparr>"

fun specCall :: "builder_call \<Rightarrow> ReplayContextValue \<Rightarrow> ReplayContextValue" where
  "specCall (CallSetSessionID sessionID) v = v\<lparr>rc_SessionID := sessionID\<rparr>"
| "specCall (CallSetSystemPrompt content metadata) v =
     v\<lparr>rc_SystemPrompt := \<lparr>sp_Content = content, sp_Role = ''system'', sp_Metadata = metadata\<rparr>\<rparr>"
| "specCall (CallSetTools tools) v = v\<lparr>rc_Tools := Some (map toolDefinitionOfTool tools)\<rparr>"
| "specCall (CallSetModelParams temperature maxTokens) v =
     v\<lparr>rc_ModelConfig := (rc_ModelConfig v)\<lparr>mc_Temperature := temperature,
        mc_MaxTokens := maxTokens\<rparr>\<rparr>"
| "specCall (CallAddTurn roundNo userMsg assistantResp toolCalls tokenUsage traceID timestamp) v =
     v\<lparr>rc_ConversationHistory := Some (elems (rc_ConversationHistory v)
        @ [newTurn roundNo userMsg assistantResp toolCalls tokenUsage traceID timestamp])\<rparr>"

definition roundOfCall :: "builder_call \<Rightarrow> go_int option" where
  "roundOfCall c =
     (case c of
        CallAddTurn roundNo userMsg assistantResp toolCalls tokenUsage traceID timestamp \<Rightarrow>
          Some roundNo
      | _ \<Rightarrow> None)"

definition exampleTime :: Time where
  "exampleTime = \<lparr>time_unixNano = 1700000000000000000, time_offset = 0, time_mono = Some 5\<rparr>"

definition exampleUsage :: TokenUsage where
  "exampleUsage = \<lparr>tu_PromptTokens = 10, tu_CompletionTokens = 5, tu_TotalTokens = 15\<rparr>"

text \<open>A growth policy and calls for the examples.\<close>

definition doubling :: "nat \<Rightarrow> nat" where
  "doubling c = 2 * c + 2"

definition exampleAddTurn :: "go_int \<Rightarrow> string \<Rightarrow> string \<Rightarrow> builder_call" where
  "exampleAddTurn r userMsg assistantResp =
     CallAddTurn r userMsg assistantResp None exampleUsage ''trace'' ''2026-01-01T00:00:00Z''"

definition panicFree :: "builder_call \<Rightarrow> bool" where
  "panicFree c =
     (case c of CallSetTools tools \<Rightarrow> list_all (\<lambda>tool. tool_Function tool \<noteq> None) tools
      | _ \<Rightarrow> True)"

subsection \<open>Recording a tool execution\<close>

text \<open>
  A \<^verbatim>\<open>time.Duration\<close> is an \<^verbatim>\<open>int64\<close> of nanoseconds. \<^verbatim>\<open>Time.Sub\<close> of the Go
  library subtracts the monotonic readings when both times carry one (\<^verbatim>\<open>subMono\<close>),
  and the wall-clock instants otherwise; either way the result saturates at the
  largest and the smallest duration. \<^verbatim>\<open>Duration.Milliseconds\<close> is the truncating
  division \<^verbatim>\<open>int64(d) / 1e6\<close>.
\<close>

type_synonym Duration = "64 word"

definition maxDuration :: Duration where "maxDuration = 0x7FFFFFFFFFFFFFFF"
definition minDuration :: Duration where "minDuration = 0x8000000000000000"

definition subMono :: "64 word \<Rightarrow> 64 word \<Rightarrow> Duration" where
  "subMono t u =
     (let d = t - u in
      if d <s 0 \<and> u <s t then maxDuration
      else if 0 <s d \<and> t <s u then minDuration
      else d)"

definition saturate :: "int \<Rightarrow> Duration" where
  "saturate d =
     (if d < - (2 ^ 63) then minDuration else if 2 ^ 63 \<le> d then maxDuration else word_of_int d)"

definition Sub :: "Time \<Rightarrow> Time \<Rightarrow> Duration" where
  "Sub t u =
     (case (time_mono t, time_mono u) of
        (Some mt, Some mu) \<Rightarrow> subMono mt mu
      | _ \<Rightarrow> saturate (time_unixNano t - time_unixNano u))"

definition truncDiv :: "int \<Rightarrow> int \<Rightarrow> int" where
  "truncDiv a b = sgn a * sgn b * (\<bar>a\<bar> div \<bar>b\<bar>)"

definition Milliseconds :: "Duration \<Rightarrow> go_int" where
  "Milliseconds d = word_of_int (truncDiv (sint d) 1000000)"

text \<open>
  One pass of the loop over \<^verbatim>\<open>assistantMsg.ToolCalls\<close> (lines 624 to 681): what it
  has at hand when it appends the \<^verbatim>\<open>ToolCallExecution\<close>, namely the name and ID of
  the tool call, the decoded arguments, the result of \<^verbatim>\<open>executeTool\<close> and the two
  values of \<^verbatim>\<open>time.Now()\<close> around it. \<open>format\<close> is \<^verbatim>\<open>Format(time.RFC3339Nano)\<close>.
\<close>

record ToolInvocation =
  inv_Name :: string
  inv_ID :: string
  inv_argsMap :: "gomap option"
  inv_result :: string
  inv_toolStartTime :: Time
  inv_toolEndTime :: Time

definition recordExecution :: "(Time \<Rightarrow> string) \<Rightarrow> ToolInvocation \<Rightarrow> ToolCallExecution" where
  "recordExecution format exec =
     \<lparr>tc_ToolName = inv_Name exec,
      tc_ToolID = inv_ID exec,
      tc_Arguments = inv_argsMap exec,
      tc_Result = inv_result exec,
      tc_StartTime = format (inv_toolStartTime exec),
      tc_EndTime = format (inv_toolEndTime exec),
      tc_DurationMs = Milliseconds (Sub (inv_toolEndTime exec) (inv_toolStartTime exec)),
      tc_Success = True,
      tc_Error = []\<rparr>"


definition exampleInvocation :: ToolInvocation where
  "exampleInvocation =
     \<lparr>inv_Name = ''noop'', inv_ID = ''t1'', inv_argsMap = None, inv_result = ''ok'',
      inv_toolStartTime = \<lparr>time_unixNano = 1700000000000000000, time_offset = 0,
        time_mono = Some 1000000\<rparr>,
      inv_toolEndTime = \<lparr>time_unixNano = 1700000000002500000, time_offset = 0,
        time_mono = Some 3500000\<rparr>\<rparr>"

subsection \<open>The codec: ToJSON and reading the document back\<close>

text \<open>
  The serialized document is a tree, not a text. An object keeps its members in the
  order written (a list, since a JSON object can repeat a name); a string leaf holds the
  bytes of the string; a number leaf and a timestamp leaf hold the value that the
  literal denotes: an integer, the bits of a float64, or a civil time (local
  nanoseconds since the Unix epoch, and the zone offset in minutes). The lexical layer
  of \<^verbatim>\<open>encoding/json\<close> (escapes, the formatting and parsing of numbers and of
  RFC 3339 timestamps, the indentation) is left out: it is exact on what is written.

  The errors are those of \<^verbatim>\<open>Marshal\<close> (\<open>UnsupportedValueError\<close> for NaN and the
  infinities, \<open>MarshalerError\<close> from \<^verbatim>\<open>Time.MarshalJSON\<close>) and of \<^verbatim>\<open>Unmarshal\<close>
  (\<open>UnmarshalTypeError\<close>). \<open>OutsideModel\<close> is not an error of Go: it marks a
  document that this model of \<^verbatim>\<open>Unmarshal\<close> does not cover (a leaf of another kind
  where the library would convert, a repeated or unknown member name of a struct), so
  that the model never answers for the library there.
\<close>

datatype json =
    JNull
  | JBool bool
  | JInt int
  | JFloat float64
  | JTime int int
  | JString string
  | JArray "json list"
  | JObject "(string \<times> json) list"

datatype json_error = UnsupportedValueError | MarshalerError | UnmarshalTypeError | OutsideModel

text \<open>Results in order, stopping at the first error.\<close>

fun collect :: "('e + 'a) list \<Rightarrow> 'e + 'a list" where
  "collect [] = Inr []"
| "collect (x # xs) =
     (case x of
        Inl e \<Rightarrow> Inl e
      | Inr v \<Rightarrow> (case collect xs of Inl e \<Rightarrow> Inl e | Inr vs \<Rightarrow> Inr (v # vs)))"

definition bnd :: "'e + 'a \<Rightarrow> ('a \<Rightarrow> 'e + 'b) \<Rightarrow> 'e + 'b" where
  "bnd x f = (case x of Inl e \<Rightarrow> Inl e | Inr v \<Rightarrow> f v)"

subsubsection \<open>Strings\<close>

text \<open>
  \<^verbatim>\<open>encoding/json\<close> writes a string coerced to valid UTF-8: it walks the bytes with
  \<^verbatim>\<open>utf8.DecodeRuneInString\<close>, copies each well-formed sequence and writes U+FFFD
  (the bytes EF BF BD once decoded) for each byte that starts none. \<open>runeLen\<close> is
  the size that \<^verbatim>\<open>DecodeRuneInString\<close> finds at the head of a string, with 0 for its
  \<^verbatim>\<open>(RuneError, 1)\<close>; the ranges of the second byte are those of \<^verbatim>\<open>acceptRanges\<close>.
  Reading a string back coerces it in the same way.
\<close>

definition byte :: "char \<Rightarrow> nat" where
  "byte c = of_char c"

definition between :: "nat \<Rightarrow> nat \<Rightarrow> char \<Rightarrow> bool" where
  "between lo hi c = (lo \<le> byte c \<and> byte c \<le> hi)"

fun runeLen :: "string \<Rightarrow> nat" where
  "runeLen [] = 0"
| "runeLen (c0 # rest) =
     (let b0 = byte c0 in
      if b0 < 0x80 then 1
      else if 0xC2 \<le> b0 \<and> b0 \<le> 0xDF then
        (case rest of
           c1 # _ \<Rightarrow> if between 0x80 0xBF c1 then 2 else 0
         | _ \<Rightarrow> 0)
      else if 0xE0 \<le> b0 \<and> b0 \<le> 0xEF then
        (case rest of
           c1 # c2 # _ \<Rightarrow>
             if between (if b0 = 0xE0 then 0xA0 else 0x80) (if b0 = 0xED then 0x9F else 0xBF) c1
                \<and> between 0x80 0xBF c2
             then 3 else 0
         | _ \<Rightarrow> 0)
      else if 0xF0 \<le> b0 \<and> b0 \<le> 0xF4 then
        (case rest of
           c1 # c2 # c3 # _ \<Rightarrow>
             if between (if b0 = 0xF0 then 0x90 else 0x80) (if b0 = 0xF4 then 0x8F else 0xBF) c1
                \<and> between 0x80 0xBF c2 \<and> between 0x80 0xBF c3
             then 4 else 0
         | _ \<Rightarrow> 0)
      else 0)"

definition replacement :: string where
  "replacement = [CHR 0xEF, CHR 0xBF, CHR 0xBD]"

fun toValidUTF8 :: "string \<Rightarrow> string" where
  "toValidUTF8 [] = []"
| "toValidUTF8 (c # cs) =
     (let n = runeLen (c # cs) in
      if n = 0 then replacement @ toValidUTF8 cs
      else c # take (n - 1) cs @ toValidUTF8 (drop (n - 1) cs))"

text \<open>\<^verbatim>\<open>utf8.ValidString\<close>: every byte belongs to a well-formed sequence.\<close>

fun validUTF8 :: "string \<Rightarrow> bool" where
  "validUTF8 [] = True"
| "validUTF8 (c # cs) =
     (let n = runeLen (c # cs) in 0 < n \<and> validUTF8 (drop (n - 1) cs))"

subsubsection \<open>Scalars\<close>

text \<open>A float64 is finite unless its eleven exponent bits are all ones (NaN, infinities).\<close>

definition isFinite :: "float64 \<Rightarrow> bool" where
  "isFinite f = (take_bit 11 (drop_bit 52 f) \<noteq> (0x7FF :: 64 word))"

definition encString :: "string \<Rightarrow> json_error + json" where
  "encString s = Inr (JString (toValidUTF8 s))"

definition encBool :: "bool \<Rightarrow> json_error + json" where
  "encBool b = Inr (JBool b)"

definition encInt :: "go_int \<Rightarrow> json_error + json" where
  "encInt i = Inr (JInt (sint i))"

definition encFloat :: "float64 \<Rightarrow> json_error + json" where
  "encFloat f = (if isFinite f then Inr (JFloat f) else Inl UnsupportedValueError)"

text \<open>
  \<^verbatim>\<open>Time.MarshalJSON\<close> writes the civil time in the value's location with the zone
  offset in minutes, and fails when the year is outside 0 to 9999 or the zone hour
  outside 0 to 23. The instants are seconds since the Unix epoch: year 0 begins at
  -62167219200 and year 10000 at 253402300800. Reading the text back gives the same
  civil time at the written offset, with no monotonic reading.
\<close>

definition encTime :: "Time \<Rightarrow> json_error + json" where
  "encTime t =
     (let local = time_unixNano t + time_offset t * 1000000000;
          sec = local div 1000000000
      in if sec < - 62167219200 \<or> 253402300800 \<le> sec \<or> 24 \<le> \<bar>time_offset t\<bar> div 3600
         then Inl MarshalerError
         else Inr (JTime local (truncDiv (time_offset t) 60)))"

definition zeroTime :: Time where
  "zeroTime = \<lparr>time_unixNano = - 62135596800 * 1000000000, time_offset = 0, time_mono = None\<rparr>"

definition decString :: "json \<Rightarrow> json_error + string" where
  "decString j =
     (case j of
        JString s \<Rightarrow> Inr (toValidUTF8 s)
      | JNull \<Rightarrow> Inr []
      | JTime l z \<Rightarrow> Inl OutsideModel
      | _ \<Rightarrow> Inl UnmarshalTypeError)"

definition decBool :: "json \<Rightarrow> json_error + bool" where
  "decBool j =
     (case j of
        JBool b \<Rightarrow> Inr b
      | JNull \<Rightarrow> Inr False
      | _ \<Rightarrow> Inl UnmarshalTypeError)"

definition decInt :: "json \<Rightarrow> json_error + go_int" where
  "decInt j =
     (case j of
        JInt i \<Rightarrow>
          if - (2 ^ 63) \<le> i \<and> i < 2 ^ 63 then Inr (word_of_int i) else Inl UnmarshalTypeError
      | JFloat f \<Rightarrow> Inl OutsideModel
      | JNull \<Rightarrow> Inr 0
      | _ \<Rightarrow> Inl UnmarshalTypeError)"

definition decFloat :: "json \<Rightarrow> json_error + float64" where
  "decFloat j =
     (case j of
        JFloat f \<Rightarrow> Inr f
      | JInt i \<Rightarrow> Inl OutsideModel
      | JNull \<Rightarrow> Inr 0
      | _ \<Rightarrow> Inl UnmarshalTypeError)"

definition decTime :: "json \<Rightarrow> json_error + Time" where
  "decTime j =
     (case j of
        JTime local zone \<Rightarrow>
          Inr \<lparr>time_unixNano = local - zone * 60 * 1000000000, time_offset = zone * 60,
               time_mono = None\<rparr>
      | JNull \<Rightarrow> Inr zeroTime
      | JString s \<Rightarrow> Inl OutsideModel
      | _ \<Rightarrow> Inl UnmarshalTypeError)"

subsubsection \<open>Objects, maps and slices\<close>

text \<open>An object from its members in order; the first member that fails is the error.\<close>

definition object :: "(string \<times> (json_error + json)) list \<Rightarrow> json_error + json" where
  "object members =
     map_sum id JObject (collect (map (\<lambda>(name, e). map_sum id (Pair name) e) members))"

definition omitempty :: "bool \<Rightarrow> string \<times> (json_error + json) \<Rightarrow> (string \<times> (json_error + json)) list" where
  "omitempty isEmpty m = (if isEmpty then [] else [m])"

text \<open>
  A value of type \<^verbatim>\<open>any\<close>. The keys of a map are written in sorted order, each
  coerced like any string.
\<close>

primrec encAny :: "any \<Rightarrow> json_error + json" where
  "encAny AnyNil = Inr JNull"
| "encAny (AnyBool b) = encBool b"
| "encAny (AnyFloat f) = encFloat f"
| "encAny (AnyString s) = encString s"
| "encAny (AnySlice xs) = map_sum id JArray (collect (map encAny xs))"
| "encAny (AnyMap m) =
     object (map (\<lambda>(k, e). (toValidUTF8 k, e)) (sorted_list_of_fmap (fmmap encAny m)))"

definition encMap :: "gomap option \<Rightarrow> json_error + json" where
  "encMap m = (case m of None \<Rightarrow> Inr JNull | Some m' \<Rightarrow> encAny (AnyMap m'))"

definition emptyMap :: "gomap option \<Rightarrow> bool" where
  "emptyMap m = (case m of None \<Rightarrow> True | Some m' \<Rightarrow> fmdom m' = {||})"

definition encSlice :: "('a \<Rightarrow> json_error + json) \<Rightarrow> 'a list option \<Rightarrow> json_error + json" where
  "encSlice enc s =
     (case s of None \<Rightarrow> Inr JNull | Some xs \<Rightarrow> map_sum id JArray (collect (map enc xs)))"

text \<open>
  The members of an object read into a map: a later member replaces an earlier one of
  the same key.
\<close>

definition membersMap :: "(string \<times> (json_error + any)) list \<Rightarrow> json_error + gomap" where
  "membersMap members =
     map_sum id (\<lambda>kvs. fmap_of_list (rev kvs))
       (collect (map (\<lambda>(k, e). map_sum id (Pair (toValidUTF8 k)) e) members))"

primrec decAny :: "json \<Rightarrow> json_error + any" where
  "decAny JNull = Inr AnyNil"
| "decAny (JBool b) = Inr (AnyBool b)"
| "decAny (JInt i) = Inl OutsideModel"
| "decAny (JFloat f) = Inr (AnyFloat f)"
| "decAny (JTime l z) = Inl OutsideModel"
| "decAny (JString s) = Inr (AnyString (toValidUTF8 s))"
| "decAny (JArray js) = map_sum id AnySlice (collect (map decAny js))"
| "decAny (JObject kvs) = map_sum id AnyMap (membersMap (map (map_prod id decAny) kvs))"

definition decMap :: "json \<Rightarrow> json_error + gomap option" where
  "decMap j =
     (case j of
        JNull \<Rightarrow> Inr None
      | JObject kvs \<Rightarrow> map_sum id Some (membersMap (map (map_prod id decAny) kvs))
      | _ \<Rightarrow> Inl UnmarshalTypeError)"

definition decSlice :: "(json \<Rightarrow> json_error + 'a) \<Rightarrow> json \<Rightarrow> json_error + 'a list option" where
  "decSlice dec j =
     (case j of
        JNull \<Rightarrow> Inr None
      | JArray js \<Rightarrow> map_sum id Some (collect (map dec js))
      | _ \<Rightarrow> Inl UnmarshalTypeError)"

text \<open>
  Reading a struct: null leaves the zero value; an object is read member by member,
  and a field with no member keeps its zero value. The model covers the objects whose
  member names are distinct and are JSON names of the struct, as \<^verbatim>\<open>Marshal\<close> writes
  them.
\<close>

definition covered :: "string list \<Rightarrow> (string \<times> json) list \<Rightarrow> bool" where
  "covered names kvs = (distinct (map fst kvs) \<and> list_all (\<lambda>k. k \<in> set names) (map fst kvs))"

definition struct ::
  "string list \<Rightarrow> ((string \<times> json) list \<Rightarrow> json_error + 'a) \<Rightarrow> 'a \<Rightarrow> json \<Rightarrow> json_error + 'a" where
  "struct names dec zero j =
     (case j of
        JNull \<Rightarrow> Inr zero
      | JObject kvs \<Rightarrow> if covered names kvs then dec kvs else Inl OutsideModel
      | _ \<Rightarrow> Inl UnmarshalTypeError)"

definition field ::
  "(json \<Rightarrow> json_error + 'a) \<Rightarrow> 'a \<Rightarrow> string \<Rightarrow> (string \<times> json) list \<Rightarrow> json_error + 'a" where
  "field dec zero name kvs = (case map_of kvs name of None \<Rightarrow> Inr zero | Some j \<Rightarrow> dec j)"

subsubsection \<open>The structs, field by field in declaration order\<close>

definition encModelConfig :: "ModelConfig \<Rightarrow> json_error + json" where
  "encModelConfig mc =
     object
       ([(''model'', encString (mc_Model mc)),
         (''base_url'', encString (mc_BaseURL mc)),
         (''temperature'', encFloat (mc_Temperature mc)),
         (''max_tokens'', encInt (mc_MaxTokens mc)),
         (''top_p'', encFloat (mc_TopP mc)),
         (''frequency_penalty'', encFloat (mc_FrequencyPenalty mc)),
         (''presence_penalty'', encFloat (mc_PresencePenalty mc))]
        @ omitempty (emptyMap (mc_ExtraParams mc)) (''extra_params'', encMap (mc_ExtraParams mc)))"

definition encSystemPrompt :: "SystemPrompt \<Rightarrow> json_error + json" where
  "encSystemPrompt sp =
     object
       ([(''content'', encString (sp_Content sp)),
         (''role'', encString (sp_Role sp))]
        @ omitempty (emptyMap (sp_Metadata sp)) (''metadata'', encMap (sp_Metadata sp)))"

definition encToolDefinition :: "ToolDefinition \<Rightarrow> json_error + json" where
  "encToolDefinition td =
     object
       [(''type'', encString (td_Type td)),
        (''function'', encMap (td_Function td))]"

definition encUserMessage :: "UserMessage \<Rightarrow> json_error + json" where
  "encUserMessage um =
     object
       [(''role'', encString (um_Role um)),
        (''content'', encString (um_Content um))]"

definition encLLMResponse :: "LLMResponse \<Rightarrow> json_error + json" where
  "encLLMResponse llm =
     object
       ([(''role'', encString (llm_Role llm)),
         (''content'', encString (llm_Content llm)),
         (''tool_calls'', encBool (llm_ToolCalls llm))]
        @ omitempty (llm_Reasoning llm = []) (''reasoning'', encString (llm_Reasoning llm))
        @ omitempty (llm_FinishReason llm = [])
            (''finish_reason'', encString (llm_FinishReason llm)))"

definition encToolCallExecution :: "ToolCallExecution \<Rightarrow> json_error + json" where
  "encToolCallExecution tc =
     object
       ([(''tool_name'', encString (tc_ToolName tc)),
         (''tool_id'', encString (tc_ToolID tc)),
         (''arguments'', encMap (tc_Arguments tc)),
         (''result'', encString (tc_Result tc)),
         (''start_time'', encString (tc_StartTime tc)),
         (''end_time'', encString (tc_EndTime tc)),
         (''duration_ms'', encInt (tc_DurationMs tc)),
         (''success'', encBool (tc_Success tc))]
        @ omitempty (tc_Error tc = []) (''error'', encString (tc_Error tc)))"

definition encTokenUsage :: "TokenUsage \<Rightarrow> json_error + json" where
  "encTokenUsage tu =
     object
       [(''prompt_tokens'', encInt (tu_PromptTokens tu)),
        (''completion_tokens'', encInt (tu_CompletionTokens tu)),
        (''total_tokens'', encInt (tu_TotalTokens tu))]"

definition encConversationTurn :: "ConversationTurn \<Rightarrow> json_error + json" where
  "encConversationTurn turn =
     object
       ([(''round'', encInt (ct_Round turn)),
         (''timestamp'', encString (ct_Timestamp turn)),
         (''turn_id'', encString (ct_TurnID turn)),
         (''user_input'', encUserMessage (ct_UserInput turn)),
         (''llm_response'', encLLMResponse (ct_LLMResponse turn))]
        @ omitempty (elems (ct_ToolCalls turn) = [])
            (''tool_calls'', encSlice encToolCallExecution (ct_ToolCalls turn))
        @ [(''token_usage'', encTokenUsage (ct_TokenUsage turn))])"

text \<open>\<^verbatim>\<open>total_cost\<close> is left out when the float is zero, of either sign.\<close>

definition encSessionMetadata :: "SessionMetadata \<Rightarrow> json_error + json" where
  "encSessionMetadata sm =
     object
       ([(''environment'', encString (sm_Environment sm)),
         (''tags'', encSlice encString (sm_Tags sm))]
        @ omitempty (emptyMap (sm_CustomFields sm))
            (''custom_fields'', encMap (sm_CustomFields sm))
        @ [(''response_time_ms'', encInt (sm_ResponseTimeMs sm))]
        @ omitempty (sm_TotalCost sm = 0 \<or> sm_TotalCost sm = 0x8000000000000000)
            (''total_cost'', encFloat (sm_TotalCost sm))
        @ omitempty (emptyMap (sm_AdditionalInfo sm))
            (''additional_info'', encMap (sm_AdditionalInfo sm)))"

definition encReplayContext :: "ReplayContextValue \<Rightarrow> json_error + json" where
  "encReplayContext r =
     object
       [(''session_id'', encString (rc_SessionID r)),
        (''user_id'', encString (rc_UserID r)),
        (''trace_id'', encString (rc_TraceID r)),
        (''timestamp'', encTime (rc_Timestamp r)),
        (''model_config'', encModelConfig (rc_ModelConfig r)),
        (''system_prompt'', encSystemPrompt (rc_SystemPrompt r)),
        (''tools'', encSlice encToolDefinition (rc_Tools r)),
        (''conversation_history'', encSlice encConversationTurn (rc_ConversationHistory r)),
        (''metadata'', encSessionMetadata (rc_Metadata r))]"

text \<open>
  \<^verbatim>\<open>ToJSON\<close>: the document of \<^verbatim>\<open>json.MarshalIndent\<close>, or its error (the indentation
  belongs to the text, not to the tree).
\<close>

definition ToJSON :: "ReplayContextValue \<Rightarrow> json_error + json" where
  "ToJSON r = (case encReplayContext r of Inl err \<Rightarrow> Inl err | Inr data \<Rightarrow> Inr data)"

text \<open>
  Reading the document back, as \<^verbatim>\<open>json.Unmarshal(replayContextJSON, &replayCtx)\<close> of
  the printed instructions does on a zero \<^verbatim>\<open>ReplayContext\<close>.
\<close>

definition zeroModelConfig :: ModelConfig where
  "zeroModelConfig =
     \<lparr>mc_Model = [], mc_BaseURL = [], mc_Temperature = 0, mc_MaxTokens = 0, mc_TopP = 0,
      mc_FrequencyPenalty = 0, mc_PresencePenalty = 0, mc_ExtraParams = None\<rparr>"

definition zeroSessionMetadata :: SessionMetadata where
  "zeroSessionMetadata =
     \<lparr>sm_Environment = [], sm_Tags = None, sm_CustomFields = None, sm_ResponseTimeMs = 0,
      sm_TotalCost = 0, sm_AdditionalInfo = None\<rparr>"

definition zeroToolCallExecution :: ToolCallExecution where
  "zeroToolCallExecution =
     \<lparr>tc_ToolName = [], tc_ToolID = [], tc_Arguments = None, tc_Result = [], tc_StartTime = [],
      tc_EndTime = [], tc_DurationMs = 0, tc_Success = False, tc_Error = []\<rparr>"

definition zeroReplayContext :: ReplayContextValue where
  "zeroReplayContext =
     \<lparr>rc_SessionID = [], rc_UserID = [], rc_TraceID = [], rc_Timestamp = zeroTime,
      rc_ModelConfig = zeroModelConfig, rc_SystemPrompt = zeroSystemPrompt, rc_Tools = None,
      rc_ConversationHistory = None, rc_Metadata = zeroSessionMetadata\<rparr>"

definition decModelConfig :: "json \<Rightarrow> json_error + ModelConfig" where
  "decModelConfig =
     struct [''model'', ''base_url'', ''temperature'', ''max_tokens'', ''top_p'',
        ''frequency_penalty'', ''presence_penalty'', ''extra_params'']
       (\<lambda>kvs.
          bnd (field decString [] ''model'' kvs) (\<lambda>model.
          bnd (field decString [] ''base_url'' kvs) (\<lambda>baseURL.
          bnd (field decFloat 0 ''temperature'' kvs) (\<lambda>temperature.
          bnd (field decInt 0 ''max_tokens'' kvs) (\<lambda>maxTokens.
          bnd (field decFloat 0 ''top_p'' kvs) (\<lambda>topP.
          bnd (field decFloat 0 ''frequency_penalty'' kvs) (\<lambda>frequencyPenalty.
          bnd (field decFloat 0 ''presence_penalty'' kvs) (\<lambda>presencePenalty.
          bnd (field decMap None ''extra_params'' kvs) (\<lambda>extraParams.
          Inr \<lparr>mc_Model = model, mc_BaseURL = baseURL, mc_Temperature = temperature,
               mc_MaxTokens = maxTokens, mc_TopP = topP,
               mc_FrequencyPenalty = frequencyPenalty,
               mc_PresencePenalty = presencePenalty, mc_ExtraParams = extraParams\<rparr>)))))))))
       zeroModelConfig"

definition decSystemPrompt :: "json \<Rightarrow> json_error + SystemPrompt" where
  "decSystemPrompt =
     struct [''content'', ''role'', ''metadata'']
       (\<lambda>kvs.
          bnd (field decString [] ''content'' kvs) (\<lambda>content.
          bnd (field decString [] ''role'' kvs) (\<lambda>role.
          bnd (field decMap None ''metadata'' kvs) (\<lambda>metadata.
          Inr \<lparr>sp_Content = content, sp_Role = role, sp_Metadata = metadata\<rparr>))))
       zeroSystemPrompt"

definition decToolDefinition :: "json \<Rightarrow> json_error + ToolDefinition" where
  "decToolDefinition =
     struct [''type'', ''function'']
       (\<lambda>kvs.
          bnd (field decString [] ''type'' kvs) (\<lambda>ty.
          bnd (field decMap None ''function'' kvs) (\<lambda>function.
          Inr \<lparr>td_Type = ty, td_Function = function\<rparr>)))
       zeroToolDefinition"

definition decUserMessage :: "json \<Rightarrow> json_error + UserMessage" where
  "decUserMessage =
     struct [''role'', ''content'']
       (\<lambda>kvs.
          bnd (field decString [] ''role'' kvs) (\<lambda>role.
          bnd (field decString [] ''content'' kvs) (\<lambda>content.
          Inr \<lparr>um_Role = role, um_Content = content\<rparr>)))
       (ct_UserInput zeroTurn)"

definition decLLMResponse :: "json \<Rightarrow> json_error + LLMResponse" where
  "decLLMResponse =
     struct [''role'', ''content'', ''tool_calls'', ''reasoning'', ''finish_reason'']
       (\<lambda>kvs.
          bnd (field decString [] ''role'' kvs) (\<lambda>role.
          bnd (field decString [] ''content'' kvs) (\<lambda>content.
          bnd (field decBool False ''tool_calls'' kvs) (\<lambda>toolCalls.
          bnd (field decString [] ''reasoning'' kvs) (\<lambda>reasoning.
          bnd (field decString [] ''finish_reason'' kvs) (\<lambda>finishReason.
          Inr \<lparr>llm_Role = role, llm_Content = content, llm_ToolCalls = toolCalls,
               llm_Reasoning = reasoning, llm_FinishReason = finishReason\<rparr>))))))
       (ct_LLMResponse zeroTurn)"

definition decToolCallExecution :: "json \<Rightarrow> json_error + ToolCallExecution" where
  "decToolCallExecution =
     struct [''tool_name'', ''tool_id'', ''arguments'', ''result'', ''start_time'', ''end_time'',
        ''duration_ms'', ''success'', ''error'']
       (\<lambda>kvs.
          bnd (field decString [] ''tool_name'' kvs) (\<lambda>toolName.
          bnd (field decString [] ''tool_id'' kvs) (\<lambda>toolID.
          bnd (field decMap None ''arguments'' kvs) (\<lambda>arguments.
          bnd (field decString [] ''result'' kvs) (\<lambda>result.
          bnd (field decString [] ''start_time'' kvs) (\<lambda>startTime.
          bnd (field decString [] ''end_time'' kvs) (\<lambda>endTime.
          bnd (field decInt 0 ''duration_ms'' kvs) (\<lambda>durationMs.
          bnd (field decBool False ''success'' kvs) (\<lambda>success.
          bnd (field decString [] ''error'' kvs) (\<lambda>err.
          Inr \<lparr>tc_ToolName = toolName, tc_ToolID = toolID, tc_Arguments = arguments,
               tc_Result = result, tc_StartTime = startTime, tc_EndTime = endTime,
               tc_DurationMs = durationMs, tc_Success = success, tc_Error = err\<rparr>))))))))))
       zeroToolCallExecution"

definition decTokenUsage :: "json \<Rightarrow> json_error + TokenUsage" where
  "decTokenUsage =
     struct [''prompt_tokens'', ''completion_tokens'', ''total_tokens'']
       (\<lambda>kvs.
          bnd (field decInt 0 ''prompt_tokens'' kvs) (\<lambda>promptTokens.
          bnd (field decInt 0 ''completion_tokens'' kvs) (\<lambda>completionTokens.
          bnd (field decInt 0 ''total_tokens'' kvs) (\<lambda>totalTokens.
          Inr \<lparr>tu_PromptTokens = promptTokens, tu_CompletionTokens = completionTokens,
               tu_TotalTokens = totalTokens\<rparr>))))
       (ct_TokenUsage zeroTurn)"

definition decConversationTurn :: "json \<Rightarrow> json_error + ConversationTurn" where
  "decConversationTurn =
     struct [''round'', ''timestamp'', ''turn_id'', ''user_input'', ''llm_response'',
        ''tool_calls'', ''token_usage'']
       (\<lambda>kvs.
          bnd (field decInt 0 ''round'' kvs) (\<lambda>roundNo.
          bnd (field decString [] ''timestamp'' kvs) (\<lambda>timestamp.
          bnd (field decString [] ''turn_id'' kvs) (\<lambda>turnID.
          bnd (field decUserMessage (ct_UserInput zeroTurn) ''user_input'' kvs) (\<lambda>userInput.
          bnd (field decLLMResponse (ct_LLMResponse zeroTurn) ''llm_response'' kvs) (\<lambda>llmResponse.
          bnd (field (decSlice decToolCallExecution) None ''tool_calls'' kvs) (\<lambda>toolCalls.
          bnd (field decTokenUsage (ct_TokenUsage zeroTurn) ''token_usage'' kvs) (\<lambda>tokenUsage.
          Inr \<lparr>ct_Round = roundNo, ct_Timestamp = timestamp, ct_TurnID = turnID,
               ct_UserInput = userInput, ct_LLMResponse = llmResponse,
               ct_ToolCalls = toolCalls, ct_TokenUsage = tokenUsage\<rparr>))))))))
       zeroTurn"

definition decSessionMetadata :: "json \<Rightarrow> json_error + SessionMetadata" where
  "decSessionMetadata =
     struct [''environment'', ''tags'', ''custom_fields'', ''response_time_ms'', ''total_cost'',
        ''additional_info'']
       (\<lambda>kvs.
          bnd (field decString [] ''environment'' kvs) (\<lambda>environment.
          bnd (field (decSlice decString) None ''tags'' kvs) (\<lambda>tags.
          bnd (field decMap None ''custom_fields'' kvs) (\<lambda>customFields.
          bnd (field decInt 0 ''response_time_ms'' kvs) (\<lambda>responseTimeMs.
          bnd (field decFloat 0 ''total_cost'' kvs) (\<lambda>totalCost.
          bnd (field decMap None ''additional_info'' kvs) (\<lambda>additionalInfo.
          Inr \<lparr>sm_Environment = environment, sm_Tags = tags, sm_CustomFields = customFields,
               sm_ResponseTimeMs = responseTimeMs, sm_TotalCost = totalCost,
               sm_AdditionalInfo = additionalInfo\<rparr>)))))))
       zeroSessionMetadata"

definition Unmarshal :: "json \<Rightarrow> json_error + ReplayContextValue" where
  "Unmarshal =
     struct [''session_id'', ''user_id'', ''trace_id'', ''timestamp'', ''model_config'',
        ''system_prompt'', ''tools'', ''conversation_history'', ''metadata'']
       (\<lambda>kvs.
          bnd (field decString [] ''session_id'' kvs) (\<lambda>sessionID.
          bnd (field decString [] ''user_id'' kvs) (\<lambda>userID.
          bnd (field decString [] ''trace_id'' kvs) (\<lambda>traceID.
          bnd (field decTime zeroTime ''timestamp'' kvs) (\<lambda>timestamp.
          bnd (field decModelConfig zeroModelConfig ''model_config'' kvs) (\<lambda>modelConfig.
          bnd (field decSystemPrompt zeroSystemPrompt ''system_prompt'' kvs) (\<lambda>systemPrompt.
          bnd (field (decSlice decToolDefinition) None ''tools'' kvs) (\<lambda>tools.
          bnd (field (decSlice decConversationTurn) None ''conversation_history'' kvs) (\<lambda>hist.
          bnd (field decSessionMetadata zeroSessionMetadata ''metadata'' kvs) (\<lambda>metadata.
          Inr \<lparr>rc_SessionID = sessionID, rc_UserID = userID, rc_TraceID = traceID,
               rc_Timestamp = timestamp, rc_ModelConfig = modelConfig,
               rc_SystemPrompt = systemPrompt, rc_Tools = tools,
               rc_ConversationHistory = hist, rc_Metadata = metadata\<rparr>))))))))))
       zeroReplayContext"

text \<open>A message after one pass of its text through the document.\<close>

definition coerceMessage :: "ChatCompletionMessage \<Rightarrow> ChatCompletionMessage" where
  "coerceMessage m =
     \<lparr>Role = Role m, Content = toValidUTF8 (Content m), ToolCallID = toValidUTF8 (ToolCallID m)\<rparr>"

text \<open>Encoding a context and reading the document back, and the projection of the result.\<close>

definition roundTrip :: "ReplayContextValue \<Rightarrow> json_error + ReplayContextValue" where
  "roundTrip r = bnd (ToJSON r) Unmarshal"

definition roundTripMessages :: "ReplayContextValue \<Rightarrow> json_error + ChatCompletionMessage list" where
  "roundTripMessages r = map_sum id ToOpenAIMessages (roundTrip r)"

definition validMessage :: "ChatCompletionMessage \<Rightarrow> bool" where
  "validMessage m = (validUTF8 (Content m) \<and> validUTF8 (ToolCallID m))"

text \<open>
  The context of the spec's round-trip example: system prompt "sys", one tool, and two
  turns, the second with one tool call (result "ok", tool ID "t1").
\<close>

definition exampleContext :: ReplayContextValue where
  "exampleContext =
     \<lparr>rc_SessionID = ''session'', rc_UserID = ''user'', rc_TraceID = ''trace'',
      rc_Timestamp = exampleTime,
      rc_ModelConfig =
        \<lparr>mc_Model = ''model'', mc_BaseURL = ''url'', mc_Temperature = 0x3FE6666666666666,
         mc_MaxTokens = 2000, mc_TopP = 0, mc_FrequencyPenalty = 0,
         mc_PresencePenalty = 0, mc_ExtraParams = None\<rparr>,
      rc_SystemPrompt = \<lparr>sp_Content = ''sys'', sp_Role = ''system'', sp_Metadata = None\<rparr>,
      rc_Tools = Some [\<lparr>td_Type = ''function'',
        td_Function = Some (fmap_of_list [(''name'', AnyString ''get_weather'')])\<rparr>],
      rc_ConversationHistory = Some
        [newTurn 1 ''Hi'' ''Hello'' None exampleUsage ''trace1'' ''2026-01-01T00:00:00Z'',
         newTurn 2 ''Bye'' ''Goodbye''
           (Some [recordExecution (\<lambda>t. ''2026-01-01T00:00:01Z'') exampleInvocation])
           exampleUsage ''trace2'' ''2026-01-01T00:00:02Z''],
      rc_Metadata =
        \<lparr>sm_Environment = [], sm_Tags = Some [''replay'', ''chat''], sm_CustomFields = None,
         sm_ResponseTimeMs = 0, sm_TotalCost = 0, sm_AdditionalInfo = None\<rparr>\<rparr>"

text \<open>
  The same context with a system prompt that is the single byte FF, which is not valid
  UTF-8, and with a temperature that is NaN (bits 7FF8000000000000).
\<close>

definition invalidTextContext :: ReplayContextValue where
  "invalidTextContext =
     exampleContext\<lparr>rc_SystemPrompt :=
       \<lparr>sp_Content = [CHR 0xFF], sp_Role = ''system'', sp_Metadata = None\<rparr>\<rparr>"

definition nanContext :: ReplayContextValue where
  "nanContext =
     exampleContext\<lparr>rc_ModelConfig :=
       (rc_ModelConfig exampleContext)\<lparr>mc_Temperature := 0x7FF8000000000000\<rparr>\<rparr>"

definition succeeds :: "'e + 'a \<Rightarrow> bool" where
  "succeeds x = (case x of Inl e \<Rightarrow> False | Inr v \<Rightarrow> True)"

section \<open>Properties of the fetch example\<close>

lemma appendObjects_filter:
  "map AnyMap (appendObjects xs acc) = map AnyMap acc @ filter isObject xs"
  by (induction xs arbitrary: acc) (auto simp: isObject_def split: any.splits)

lemma appendObjects_append: "appendObjects xs acc = acc @ appendObjects xs []"
proof (induction xs arbitrary: acc)
  case Nil
  show ?case by simp
next
  case (Cons item rest)
  show ?case
  proof (cases item)
    case (AnyMap msgMap)
    have "appendObjects (item # rest) acc = (acc @ [msgMap]) @ appendObjects rest []"
      using AnyMap Cons.IH [of "acc @ [msgMap]"] by simp
    moreover have "appendObjects (item # rest) [] = [msgMap] @ appendObjects rest []"
      using AnyMap Cons.IH [of "[msgMap]"] by simp
    ultimately show ?thesis by simp
  qed (use Cons.IH [of acc] in simp_all)
qed

lemma addInput_append: "addInput v acc = acc @ addInput v []"
  by (cases v) (simp_all add: addInput_def appendObjects_append [of _ acc])

lemma addOutput_append: "addOutput v acc = acc @ addOutput v []"
  by (cases v) (simp_all add: addOutput_def appendObjects_append [of _ acc])

lemma firstGeneration_none:
  "(firstGeneration obs = None) = (\<forall>ob \<in> set obs. obs_Type ob \<noteq> ''GENERATION'')"
  by (induction obs) auto

lemma firstGeneration_first:
  "\<forall>ob \<in> set before. obs_Type ob \<noteq> ''GENERATION'' \<Longrightarrow> obs_Type gen = ''GENERATION'' \<Longrightarrow>
   firstGeneration (before @ gen # after) = Some gen"
  by (induction before) auto

text \<open>
  Claim C7. An array value is normalized, as input and as output, to exactly its
  elements that are objects, in their original order: wrapped again as values, the
  result is the array filtered by \<open>isObject\<close>. Nothing fails. The array
  \<^verbatim>\<open>["a", {"role":"user","content":"hi"}, 3, {"role":"tool","content":"x"}]\<close> gives its
  two objects.
\<close>

theorem normalize_slice_keeps_objects:
  "map AnyMap (normalizeField (AnySlice xs) r) = filter isObject xs \<and>
   normalizeField (AnySlice [AnyString ''a'',
        AnyMap (fmap_of_list [(''role'', AnyString ''user''), (''content'', AnyString ''hi'')]),
        AnyFloat 0x4008000000000000,
        AnyMap (fmap_of_list [(''role'', AnyString ''tool''), (''content'', AnyString ''x'')])]) r =
     [fmap_of_list [(''role'', AnyString ''user''), (''content'', AnyString ''hi'')],
      fmap_of_list [(''role'', AnyString ''tool''), (''content'', AnyString ''x'')]]"
  by (cases r) (simp_all add: normalizeField_def addInput_def addOutput_def appendObjects_filter)

text \<open>
  Claim C8. A string, a number or a boolean becomes one message with role "user" as
  input and "assistant" as output and with the value as content, and these two are the
  only fields of the message; nil gives no message. The blocks have no failing branch:
  the only failure of the step on a fetched trace is that no generation is found.
\<close>

theorem normalize_scalar_and_nil:
  "normalizeField (AnyString s) InputField = [roleMessage ''user'' (AnyString s)] \<and>
   normalizeField (AnyFloat f) InputField = [roleMessage ''user'' (AnyFloat f)] \<and>
   normalizeField (AnyBool b) InputField = [roleMessage ''user'' (AnyBool b)] \<and>
   normalizeField (AnyString s) OutputField = [roleMessage ''assistant'' (AnyString s)] \<and>
   normalizeField (AnyFloat f) OutputField = [roleMessage ''assistant'' (AnyFloat f)] \<and>
   normalizeField (AnyBool b) OutputField = [roleMessage ''assistant'' (AnyBool b)] \<and>
   normalizeField AnyNil InputField = [] \<and> normalizeField AnyNil OutputField = [] \<and>
   fmlookup (roleMessage role v) ''role'' = Some (AnyString role) \<and>
   fmlookup (roleMessage role v) ''content'' = Some v \<and>
   fmdom (roleMessage role v) = {|''role'', ''content''|} \<and>
   isl (contextMessages (Some tr)) = (firstGeneration (trace_Observations tr) = None)"
  by (simp add: normalizeField_def addInput_def addOutput_def roleMessage_def
      contextMessages_def split: option.split)

text \<open>
  Claim C3 fails on the input block. An object given as input is not emitted as it
  is: lines 96 to 103 wrap whatever is not an array as the content of a new user message.
  The output block has the branch for a single object (line 118) and emits it as it is.
\<close>

theorem input_object_is_wrapped:
  "normalizeField (AnyMap (fmap_of_list [(''content'', AnyString ''hi'')])) InputField =
     [fmap_of_list [(''role'', AnyString ''user''),
        (''content'', AnyMap (fmap_of_list [(''content'', AnyString ''hi'')]))]] \<and>
   normalizeField (AnyMap (fmap_of_list [(''content'', AnyString ''hi'')])) InputField \<noteq>
     [fmap_of_list [(''content'', AnyString ''hi'')]] \<and>
   normalizeField (AnyMap (fmap_of_list [(''content'', AnyString ''hi'')])) OutputField =
     [fmap_of_list [(''content'', AnyString ''hi'')]]"
proof -
  let ?m = "fmap_of_list [(''content'', AnyString ''hi'')]"
  have "fmlookup (roleMessage ''user'' (AnyMap ?m)) ''role'' \<noteq> fmlookup ?m ''role''"
    by (simp add: roleMessage_def)
  then have "roleMessage ''user'' (AnyMap ?m) \<noteq> ?m" by metis
  then show ?thesis
    by (simp add: normalizeField_def addInput_def addOutput_def roleMessage_def)
qed

text \<open>
  Claim C4. When no observation of the trace has type GENERATION the step fails with
  NoGenerationFound; otherwise the observation chosen is the first of type GENERATION
  in stored order, and the messages are the normalization of its input followed by the
  normalization of its output.
\<close>

theorem extract_first_generation:
  "((\<forall>ob \<in> set (trace_Observations tr). obs_Type ob \<noteq> ''GENERATION'') \<longrightarrow>
      contextMessages (Some tr) = Inl NoGenerationFound) \<and>
   (\<forall>before gen after.
      trace_Observations tr = before @ gen # after \<and>
      (\<forall>ob \<in> set before. obs_Type ob \<noteq> ''GENERATION'') \<and> obs_Type gen = ''GENERATION'' \<longrightarrow>
      contextMessages (Some tr) =
        Inr (normalizeField (obs_Input gen) InputField @ normalizeField (obs_Output gen) OutputField))"
proof (intro conjI allI impI)
  assume "\<forall>ob \<in> set (trace_Observations tr). obs_Type ob \<noteq> ''GENERATION''"
  then have "firstGeneration (trace_Observations tr) = None"
    by (simp add: firstGeneration_none)
  then show "contextMessages (Some tr) = Inl NoGenerationFound"
    by (simp add: contextMessages_def)
next
  fix before gen after
  assume h: "trace_Observations tr = before @ gen # after \<and>
      (\<forall>ob \<in> set before. obs_Type ob \<noteq> ''GENERATION'') \<and> obs_Type gen = ''GENERATION''"
  then have "firstGeneration (trace_Observations tr) = Some gen"
    by (simp add: firstGeneration_first)
  then show "contextMessages (Some tr) =
        Inr (normalizeField (obs_Input gen) InputField @ normalizeField (obs_Output gen) OutputField)"
    using addOutput_append [of "obs_Output gen" "addInput (obs_Input gen) []"]
    by (simp add: contextMessages_def normalizeField_def)
qed

theorem extract_first_generation_witness:
  "contextMessages (Some (exampleTrace [exampleObservation ''SPAN'' AnyNil AnyNil])) =
     Inl NoGenerationFound \<and>
   contextMessages (Some (exampleTrace
      [exampleObservation ''SPAN'' (AnyString ''S'') AnyNil,
       exampleObservation ''GENERATION'' (AnyString ''Q'') (AnyString ''A''),
       exampleObservation ''GENERATION'' (AnyString ''Q2'') (AnyString ''A2'')])) =
     Inr [fmap_of_list [(''role'', AnyString ''user''), (''content'', AnyString ''Q'')],
          fmap_of_list [(''role'', AnyString ''assistant''), (''content'', AnyString ''A'')]]"
proof -
  let ?t1 = "exampleTrace [exampleObservation ''SPAN'' AnyNil AnyNil]"
  let ?s = "exampleObservation ''SPAN'' (AnyString ''S'') AnyNil"
  let ?g = "exampleObservation ''GENERATION'' (AnyString ''Q'') (AnyString ''A'')"
  let ?g2 = "exampleObservation ''GENERATION'' (AnyString ''Q2'') (AnyString ''A2'')"
  let ?t2 = "exampleTrace [?s, ?g, ?g2]"
  have a: "contextMessages (Some ?t1) = Inl NoGenerationFound"
    using extract_first_generation [of ?t1]
    by (simp add: exampleTrace_def exampleObservation_def)
  have "trace_Observations ?t2 = [?s] @ ?g # [?g2] \<and>
      (\<forall>ob \<in> set [?s]. obs_Type ob \<noteq> ''GENERATION'') \<and> obs_Type ?g = ''GENERATION''"
    by (simp add: exampleTrace_def exampleObservation_def)
  then have "contextMessages (Some ?t2) =
        Inr (normalizeField (obs_Input ?g) InputField @ normalizeField (obs_Output ?g) OutputField)"
    using extract_first_generation [of ?t2] by blast
  then have b: "contextMessages (Some ?t2) =
     Inr [fmap_of_list [(''role'', AnyString ''user''), (''content'', AnyString ''Q'')],
          fmap_of_list [(''role'', AnyString ''assistant''), (''content'', AnyString ''A'')]]"
    by (simp add: exampleObservation_def normalizeField_def addInput_def addOutput_def
        roleMessage_def)
  from a b show ?thesis by simp
qed

section \<open>Properties of the projection\<close>

lemma appendToolMessages_map:
  "appendToolMessages tcs messages = messages @ map toolMessage tcs"
  by (induction tcs arbitrary: messages)
    (simp_all add: toolMessage_def ChatMessageRoleTool_def)

lemma appendTurnMessages_concat:
  "appendTurnMessages turns messages = messages @ concat (map turnMessages turns)"
  by (induction turns arbitrary: messages)
    (simp_all add: turnMessages_def appendToolMessages_map ChatMessageRoleUser_def
      ChatMessageRoleAssistant_def)

lemma length_turnMessages: "length (turnMessages turn) = 2 + length (elems (ct_ToolCalls turn))"
  by (simp add: turnMessages_def)

text \<open>
  Claim C2. The projection is the system message built from the system prompt's
  content, followed, turn by turn in stored order, by the user message, the assistant
  message and one tool message per tool call in recorded order (role "tool", the
  call's result as content, its tool ID as tool_call_id), and nothing else: its length
  is 1 plus the sum over the turns of 2 plus the number of tool calls.
\<close>

theorem projection_order_and_length:
  "ToOpenAIMessages r =
     systemMessage r # concat (map turnMessages (elems (rc_ConversationHistory r))) \<and>
   length (ToOpenAIMessages r) =
     1 + sum_list (map (\<lambda>turn. 2 + length (elems (ct_ToolCalls turn)))
           (elems (rc_ConversationHistory r)))"
  by (simp add: ToOpenAIMessages_def appendTurnMessages_concat systemMessage_def
      ChatMessageRoleSystem_def length_concat comp_def length_turnMessages)

section \<open>Properties of the builder\<close>

lemma wf_NewContextBuilder: "wf (NewContextBuilder userID baseURL model)"
  by (simp add: wf_def NewContextBuilder_def nilSlice_def)

lemma history_NewContextBuilder: "history (NewContextBuilder userID baseURL model) = []"
  by (simp add: history_def NewContextBuilder_def loadSlice_def elems_def)

lemma setToolsLoop_frame:
  "setToolsLoop a i tools st = Inr st' \<Longrightarrow>
   st_builder st' = st_builder st \<and> st_turnArrays st' = st_turnArrays st \<and>
   st_next st' = st_next st \<and> (\<forall>a'. a' \<noteq> a \<longrightarrow> st_toolArrays st' a' = st_toolArrays st a')"
proof (induction a i tools st rule: setToolsLoop.induct)
  case (1 a i st)
  then show ?case by simp
next
  case (2 a i tool rest st)
  then show ?case by (auto split: option.splits)
qed

lemma SetTools_frame:
  assumes "SetTools tools st = Inr st'"
  shows "b_conversationCtx (st_builder st') = b_conversationCtx (st_builder st)"
    and "b_systemPrompt (st_builder st') = b_systemPrompt (st_builder st)"
    and "st_turnArrays st' = st_turnArrays st"
    and "st_next st' = Suc (st_next st)"
    and "slice_ptr (b_tools (st_builder st')) = Some (st_next st)"
    and "a < st_next st \<Longrightarrow> st_toolArrays st' a = st_toolArrays st a"
  using assms setToolsLoop_frame [of "st_next st" 0 tools _ st']
  by (auto simp: SetTools_def Let_def)

lemma AddTurn_frame:
  "b_tools (st_builder (AddTurn grow r u a tcs tu tid ts st)) = b_tools (st_builder st)"
  "b_systemPrompt (st_builder (AddTurn grow r u a tcs tu tid ts st)) = b_systemPrompt (st_builder st)"
  "st_toolArrays (AddTurn grow r u a tcs tu tid ts st) = st_toolArrays st"
  "st_next st \<le> st_next (AddTurn grow r u a tcs tu tid ts st)"
  by (auto simp: AddTurn_def appendTurn_def Let_def split: option.splits)

lemma AddTurn_wf:
  "wf st \<Longrightarrow> wf (AddTurn grow r u a tcs tu tid ts st)"
  by (auto simp: wf_def AddTurn_def appendTurn_def Let_def split: option.splits)

lemma AddTurn_history:
  "wf st \<Longrightarrow> history (AddTurn grow r u a tcs tu tid ts st) =
     history st @ [newTurn r u a tcs tu tid ts]"
  by (auto simp: wf_def history_def loadSlice_def elems_def AddTurn_def appendTurn_def Let_def
      take_Suc_conv_app_nth split: option.splits)

lemma AddTurn_kept:
  "wf st \<Longrightarrow> kept st s \<Longrightarrow>
   kept (AddTurn grow r u a tcs tu tid ts st) s \<and>
   loadSlice (st_turnArrays (AddTurn grow r u a tcs tu tid ts st)) s = loadSlice (st_turnArrays st) s"
  by (auto simp: wf_def kept_def loadSlice_def AddTurn_def appendTurn_def Let_def
      split: option.splits)

lemma setToolsLoop_content:
  "setToolsLoop a i tools st = Inr st' \<Longrightarrow> i + length tools \<le> length (st_toolArrays st a) \<Longrightarrow>
   st_toolArrays st' a =
     take i (st_toolArrays st a) @ map toolDefinitionOfTool tools
       @ drop (i + length tools) (st_toolArrays st a)"
proof (induction a i tools st rule: setToolsLoop.induct)
  case (1 a i st)
  then show ?case by simp
next
  case (2 a i tool rest st)
  from "2.prems" obtain f where f: "tool_Function tool = Some f"
    by (auto split: option.splits)
  let ?st = "st\<lparr>st_toolArrays := (st_toolArrays st)
                 (a := (st_toolArrays st a)[i := toolDefinitionOf (tool_Type tool) f])\<rparr>"
  have run: "setToolsLoop a (Suc i) rest ?st = Inr st'"
    using "2.prems"(1) f by simp
  have len: "Suc i + length rest \<le> length (st_toolArrays ?st a)"
    using "2.prems"(2) by simp
  have "st_toolArrays st' a =
     take (Suc i) (st_toolArrays ?st a) @ map toolDefinitionOfTool rest
       @ drop (Suc i + length rest) (st_toolArrays ?st a)"
    using "2.IH" [OF f run len] .
  moreover have "i < length (st_toolArrays st a)"
    using "2.prems"(2) by simp
  ultimately show ?case
    using f by (simp add: take_Suc_conv_app_nth toolDefinitionOfTool_def)
qed

lemma SetTools_content:
  assumes "SetTools tools st = Inr st'"
  shows "loadSlice (st_toolArrays st') (b_tools (st_builder st')) =
     Some (map toolDefinitionOfTool tools)"
proof -
  let ?a = "st_next st" and ?n = "length tools"
  let ?st = "st\<lparr>st_builder := (st_builder st)
               \<lparr>b_tools := \<lparr>slice_ptr = Some ?a, slice_len = ?n, slice_cap = ?n\<rparr>\<rparr>,
            st_toolArrays := (st_toolArrays st)(?a := replicate ?n zeroToolDefinition),
            st_next := Suc ?a\<rparr>"
  have run: "setToolsLoop ?a 0 tools ?st = Inr st'"
    using assms by (simp add: SetTools_def Let_def)
  have "st_toolArrays st' ?a = map toolDefinitionOfTool tools"
    using setToolsLoop_content [OF run] by simp
  moreover have "b_tools (st_builder st') = \<lparr>slice_ptr = Some ?a, slice_len = ?n, slice_cap = ?n\<rparr>"
    using setToolsLoop_frame [OF run] by simp
  ultimately show ?thesis by (simp add: loadSlice_def)
qed

lemma wf_kept: "wf st \<Longrightarrow> kept st (b_conversationCtx (st_builder st))"
  by (auto simp: wf_def kept_def split: option.splits)

lemma wf_allocated: "wf st \<Longrightarrow> allocated st (b_tools (st_builder st))"
  by (auto simp: wf_def allocated_def split: option.splits)

lemma wf_history:
  "wf st \<Longrightarrow> loadSlice (st_turnArrays st) (b_conversationCtx (st_builder st)) = Some (history st)"
  by (auto simp: wf_def history_def loadSlice_def elems_def split: option.splits)

lemma call_wf: "wf st \<Longrightarrow> call grow c st = Inr st' \<Longrightarrow> wf st'"
proof (cases c)
  case (CallSetTools tools)
  assume "wf st" "call grow c st = Inr st'"
  then show ?thesis
    using CallSetTools SetTools_frame [of tools st st']
    by (auto simp: wf_def split: option.splits)
next
  case (CallAddTurn r u a tcs tu tid ts)
  assume "wf st" "call grow c st = Inr st'"
  then show ?thesis using CallAddTurn AddTurn_wf by auto
qed (auto simp: wf_def SetSessionID_def SetSystemPrompt_def SetModelParams_def
    split: option.splits)

lemma call_kept:
  "wf st \<Longrightarrow> call grow c st = Inr st' \<Longrightarrow> kept st s \<Longrightarrow>
   kept st' s \<and> loadSlice (st_turnArrays st') s = loadSlice (st_turnArrays st) s"
proof (cases c)
  case (CallSetTools tools)
  assume "wf st" "call grow c st = Inr st'" "kept st s"
  then show ?thesis
    using CallSetTools SetTools_frame [of tools st st']
    by (auto simp: kept_def split: option.splits)
next
  case (CallAddTurn r u a tcs tu tid ts)
  assume "wf st" "call grow c st = Inr st'" "kept st s"
  then show ?thesis using CallAddTurn AddTurn_kept by auto
qed (auto simp: kept_def loadSlice_def SetSessionID_def SetSystemPrompt_def SetModelParams_def
    split: option.splits)

lemma call_allocated:
  "call grow c st = Inr st' \<Longrightarrow> allocated st t \<Longrightarrow>
   allocated st' t \<and> loadSlice (st_toolArrays st') t = loadSlice (st_toolArrays st) t"
proof (cases c)
  case (CallSetTools tools)
  assume "call grow c st = Inr st'" "allocated st t"
  then show ?thesis
    using CallSetTools SetTools_frame [of tools st st']
    by (auto simp: allocated_def loadSlice_def split: option.splits)
next
  case (CallAddTurn r u a tcs tu tid ts)
  assume "call grow c st = Inr st'" "allocated st t"
  then show ?thesis
    using CallAddTurn AddTurn_frame(3) [of grow r u a tcs tu tid ts st]
      AddTurn_frame(4) [of st grow r u a tcs tu tid ts]
    by (auto simp: allocated_def loadSlice_def split: option.splits)
qed (auto simp: allocated_def loadSlice_def SetSessionID_def SetSystemPrompt_def
    SetModelParams_def split: option.splits)

lemma calls_kept:
  "wf st \<Longrightarrow> calls grow cs st = Inr st' \<Longrightarrow> kept st s \<Longrightarrow> allocated st t \<Longrightarrow>
   wf st' \<and> loadSlice (st_turnArrays st') s = loadSlice (st_turnArrays st) s \<and>
   loadSlice (st_toolArrays st') t = loadSlice (st_toolArrays st) t"
proof (induction cs arbitrary: st)
  case Nil
  then show ?case by simp
next
  case (Cons c cs)
  then obtain st1 where st1: "call grow c st = Inr st1" "calls grow cs st1 = Inr st'"
    by (auto split: sum.splits)
  have "wf st1" using Cons.prems(1) st1(1) by (rule call_wf)
  moreover have "kept st1 s \<and> loadSlice (st_turnArrays st1) s = loadSlice (st_turnArrays st) s"
    using Cons.prems(1) st1(1) Cons.prems(3) by (rule call_kept)
  moreover have "allocated st1 t \<and> loadSlice (st_toolArrays st1) t = loadSlice (st_toolArrays st) t"
    using st1(1) Cons.prems(4) by (rule call_allocated)
  ultimately show ?case
    using Cons.IH [of st1] st1(2) by simp
qed

lemma call_spec:
  assumes "wf st" "call grow c st = Inr st'"
  shows "load st' (Build traceID now st') = specCall c (load st (Build traceID now st))"
proof (cases c)
  case (CallSetTools tools)
  then have run: "SetTools tools st = Inr st'" using assms(2) by simp
  have "st_builder st' = (st_builder st)\<lparr>b_tools := b_tools (st_builder st')\<rparr>"
    using run setToolsLoop_frame [of "st_next st" 0 tools _ st']
    by (auto simp: SetTools_def Let_def)
  then have b: "b_sessionID (st_builder st') = b_sessionID (st_builder st)"
      "b_userID (st_builder st') = b_userID (st_builder st)"
      "b_modelConfig (st_builder st') = b_modelConfig (st_builder st)"
      "b_systemPrompt (st_builder st') = b_systemPrompt (st_builder st)"
      "b_conversationCtx (st_builder st') = b_conversationCtx (st_builder st)"
    by (metis ContextBuilder.select_convs ContextBuilder.surjective ContextBuilder.update_convs)+
  show ?thesis
    using CallSetTools SetTools_content [OF run] SetTools_frame(3) [OF run] b
    by (simp add: load_def Build_def)
next
  case (CallAddTurn r u a tcs tu tid ts)
  then have st': "st' = AddTurn grow r u a tcs tu tid ts st" using assms(2) by simp
  have h: "loadSlice (st_turnArrays st') (b_conversationCtx (st_builder st')) =
      Some (history st @ [newTurn r u a tcs tu tid ts])"
    using wf_history [OF AddTurn_wf [OF assms(1)]] AddTurn_history [OF assms(1)] st' by simp
  have b: "b_sessionID (st_builder st') = b_sessionID (st_builder st)"
      "b_userID (st_builder st') = b_userID (st_builder st)"
      "b_modelConfig (st_builder st') = b_modelConfig (st_builder st)"
      "b_systemPrompt (st_builder st') = b_systemPrompt (st_builder st)"
      "b_tools (st_builder st') = b_tools (st_builder st)"
      "st_toolArrays st' = st_toolArrays st"
    unfolding st' by (auto simp: AddTurn_def appendTurn_def Let_def split: option.splits)
  show ?thesis
    using CallAddTurn h b wf_history [OF assms(1)]
    by (simp add: load_def Build_def elems_def)
qed (use assms in \<open>auto simp: load_def Build_def SetSessionID_def SetSystemPrompt_def
      SetModelParams_def\<close>)

lemma calls_spec:
  "wf st \<Longrightarrow> calls grow cs st = Inr st' \<Longrightarrow>
   load st' (Build traceID now st') = fold specCall cs (load st (Build traceID now st))"
proof (induction cs arbitrary: st)
  case Nil
  then show ?case by simp
next
  case (Cons c cs)
  then obtain st1 where st1: "call grow c st = Inr st1" "calls grow cs st1 = Inr st'"
    by (auto split: sum.splits)
  have "wf st1" using Cons.prems(1) st1(1) by (rule call_wf)
  then show ?case
    using Cons.IH [of st1] st1 call_spec [OF Cons.prems(1) st1(1)] by simp
qed

lemma load_NewContextBuilder:
  "load (NewContextBuilder userID baseURL model)
     (Build traceID now (NewContextBuilder userID baseURL model)) =
   specNew userID baseURL model traceID now"
  by (simp add: load_def Build_def NewContextBuilder_def specNew_def loadSlice_def nilSlice_def
      zeroSystemPrompt_def)

lemma fold_specCall_history:
  "rc_ConversationHistory v = Some h \<Longrightarrow>
   rc_ConversationHistory (fold specCall cs v) = Some (h @ turnsOf cs)"
proof (induction cs arbitrary: v h)
  case Nil
  then show ?case by simp
next
  case (Cons c cs)
  then show ?case by (cases c) (simp_all add: elems_def)
qed

lemma fold_specCall_systemPrompt:
  "\<not> list_ex isSetSystemPrompt cs \<Longrightarrow>
   rc_SystemPrompt (fold specCall cs v) = rc_SystemPrompt v"
proof (induction cs arbitrary: v)
  case Nil
  then show ?case by simp
next
  case (Cons c cs)
  then show ?case by (cases c) (simp_all add: isSetSystemPrompt_def)
qed

lemma calls_wf: "wf st \<Longrightarrow> calls grow cs st = Inr st' \<Longrightarrow> wf st'"
  using calls_kept [of st grow cs st' nilSlice nilSlice]
  by (simp add: kept_def allocated_def nilSlice_def)

lemma calls_history:
  assumes "calls grow cs (NewContextBuilder userID baseURL model) = Inr st"
  shows "history st = turnsOf cs"
proof -
  let ?new = "NewContextBuilder userID baseURL model"
  have "wf st" using wf_NewContextBuilder assms by (rule calls_wf)
  then have "rc_ConversationHistory (load st (Build [] exampleTime st)) = Some (history st)"
    by (simp add: load_def Build_def wf_history)
  moreover have "load st (Build [] exampleTime st) =
      fold specCall cs (specNew userID baseURL model [] exampleTime)"
    using calls_spec [OF wf_NewContextBuilder assms] load_NewContextBuilder by simp
  ultimately show ?thesis
    using fold_specCall_history [of "specNew userID baseURL model [] exampleTime" "[]" cs]
    by (simp add: specNew_def)
qed

lemma turnsOf_rounds:
  "list_all (\<lambda>c. roundOfCall c \<noteq> None) cs \<Longrightarrow>
   map (\<lambda>turn. Some (ct_Round turn)) (turnsOf cs) = map roundOfCall cs"
proof (induction cs)
  case Nil
  then show ?case by simp
next
  case (Cons c cs)
  then show ?case by (cases c) (simp_all add: roundOfCall_def newTurn_def)
qed

lemma calls_addTurns_succeed:
  "list_all (\<lambda>c. roundOfCall c \<noteq> None) cs \<Longrightarrow> \<exists>st'. calls grow cs st = Inr st'"
proof (induction cs arbitrary: st)
  case Nil
  then show ?case by simp
next
  case (Cons c cs)
  then show ?case by (cases c) (simp_all add: roundOfCall_def)
qed

lemma setToolsLoop_succeeds:
  "list_all (\<lambda>tool. tool_Function tool \<noteq> None) tools \<Longrightarrow> \<exists>st'. setToolsLoop a i tools st = Inr st'"
  by (induction a i tools st rule: setToolsLoop.induct) auto

lemma calls_succeed:
  "list_all panicFree cs \<Longrightarrow> \<exists>st'. calls grow cs st = Inr st'"
proof (induction cs arbitrary: st)
  case Nil
  then show ?case by simp
next
  case (Cons c cs)
  then have "\<exists>st1. call grow c st = Inr st1"
    using setToolsLoop_succeeds
    by (cases c) (auto simp: panicFree_def SetTools_def Let_def)
  then show ?case using Cons by auto
qed

lemma calls_append:
  "calls grow cs0 st = Inr st1 \<Longrightarrow> calls grow cs1 st1 = Inr st2 \<Longrightarrow>
   calls grow (cs0 @ cs1) st = Inr st2"
  by (induction cs0 arbitrary: st) (auto split: sum.splits)

text \<open>
  Claim C5. \<open>n\<close> calls of \<^verbatim>\<open>AddTurn\<close> with the rounds 1 to \<open>n\<close> in order on a
  new builder return, and leave a history of length \<open>n\<close> whose entry \<open>i\<close> has
  round \<open>i + 1\<close>. The round is stored as given: in any state a new builder reaches,
  \<^verbatim>\<open>AddTurn\<close> with any round appends exactly one turn, which carries that round.
\<close>

theorem addTurn_rounds:
  "(map roundOfCall cs = map (\<lambda>i. Some (of_nat (i + 1))) [0..<n] \<longrightarrow>
      (\<exists>st. calls grow cs (NewContextBuilder userID baseURL model) = Inr st \<and>
         length (history st) = n \<and>
         (\<forall>i<n. ct_Round (history st ! i) = of_nat (i + 1)))) \<and>
   (\<forall>cs0 st. calls grow cs0 (NewContextBuilder userID baseURL model) = Inr st \<longrightarrow>
      history (AddTurn grow r userMsg assistantResp toolCalls tokenUsage traceID timestamp st) =
        history st @ [newTurn r userMsg assistantResp toolCalls tokenUsage traceID timestamp] \<and>
      ct_Round (newTurn r userMsg assistantResp toolCalls tokenUsage traceID timestamp) = r)"
proof (intro conjI allI impI)
  assume rounds: "map roundOfCall cs = map (\<lambda>i. Some (of_nat (i + 1))) [0..<n]"
  have len: "length cs = n"
    using arg_cong [OF rounds, of length] by simp
  have "\<forall>x \<in> set (map roundOfCall cs). x \<noteq> None"
    unfolding rounds by auto
  then have all: "list_all (\<lambda>c. roundOfCall c \<noteq> None) cs"
    by (simp add: list_all_iff)
  then obtain st where st: "calls grow cs (NewContextBuilder userID baseURL model) = Inr st"
    using calls_addTurns_succeed by blast
  have h: "history st = turnsOf cs" using st by (rule calls_history)
  have m: "map (\<lambda>turn. Some (ct_Round turn)) (history st) =
      map (\<lambda>i. Some (of_nat (i + 1))) [0..<n]"
    using turnsOf_rounds [OF all] h rounds by simp
  have l: "length (history st) = n"
    using arg_cong [OF m, of length] by simp
  have "\<forall>i<n. ct_Round (history st ! i) = of_nat (i + 1)"
  proof (intro allI impI)
    fix i assume i: "i < n"
    have "map (\<lambda>turn. Some (ct_Round turn)) (history st) ! i =
        map (\<lambda>i. Some (of_nat (i + 1))) [0..<n] ! i"
      using m by simp
    then show "ct_Round (history st ! i) = of_nat (i + 1)"
      using i l by simp
  qed
  with st l show "\<exists>st. calls grow cs (NewContextBuilder userID baseURL model) = Inr st \<and>
         length (history st) = n \<and> (\<forall>i<n. ct_Round (history st ! i) = of_nat (i + 1))"
    by blast
next
  fix cs0 st
  assume "calls grow cs0 (NewContextBuilder userID baseURL model) = Inr st"
  with wf_NewContextBuilder have "wf st" by (rule calls_wf)
  then show "history (AddTurn grow r userMsg assistantResp toolCalls tokenUsage traceID timestamp st) =
        history st @ [newTurn r userMsg assistantResp toolCalls tokenUsage traceID timestamp]"
    by (rule AddTurn_history)
next
  fix cs0 st
  show "ct_Round (newTurn r userMsg assistantResp toolCalls tokenUsage traceID timestamp) = r"
    by (simp add: newTurn_def)
qed

theorem addTurn_rounds_witness:
  "(case calls doubling
       [exampleAddTurn 1 ''a'' ''b'', exampleAddTurn 2 ''c'' ''d'', exampleAddTurn 3 ''e'' ''f'']
       (NewContextBuilder ''user'' ''url'' ''model'') of
      Inl e \<Rightarrow> False
    | Inr st \<Rightarrow>
        map ct_Round (history st) = [1, 2, 3] \<and>
        map ct_Round (history (AddTurn doubling 2 ''g'' ''h'' None exampleUsage ''t'' ''ts'' st)) =
          [1, 2, 3, 2])"
proof -
  let ?cs = "[exampleAddTurn 1 ''a'' ''b'', exampleAddTurn 2 ''c'' ''d'',
      exampleAddTurn 3 ''e'' ''f'']"
  have up: "[0..<3] = [0, 1, 2]" by (simp add: upt_rec)
  have rounds: "map roundOfCall ?cs = map (\<lambda>i. Some (of_nat (i + 1))) [0..<3]"
    unfolding up by (simp add: roundOfCall_def exampleAddTurn_def)
  note inst = addTurn_rounds [of "?cs" 3 doubling "''user''" "''url''" "''model''" 2 "''g''" "''h''"
      None exampleUsage "''t''" "''ts''"]
  from inst rounds obtain st where
    st: "calls doubling ?cs (NewContextBuilder ''user'' ''url'' ''model'') = Inr st"
    and len: "length (history st) = 3"
    and nth: "\<forall>i<3. ct_Round (history st ! i) = of_nat (i + 1)"
    by blast
  have "map ct_Round (history st) = map (\<lambda>i. of_nat (i + 1)) [0..<3]"
    using len nth by (intro nth_equalityI) simp_all
  then have a: "map ct_Round (history st) = [1, 2, 3]"
    unfolding up by simp
  have "history (AddTurn doubling 2 ''g'' ''h'' None exampleUsage ''t'' ''ts'' st) =
      history st @ [newTurn 2 ''g'' ''h'' None exampleUsage ''t'' ''ts'']"
    using inst st by blast
  then have b: "map ct_Round (history (AddTurn doubling 2 ''g'' ''h'' None exampleUsage ''t'' ''ts'' st)) =
      [1, 2, 3, 2]"
    using a by (simp add: newTurn_def)
  from st a b show ?thesis by simp
qed

text \<open>
  Claim C6. In a state that a new builder reaches by the calls \<open>cs0\<close>, the value
  of the context \<^verbatim>\<open>Build\<close> returns is the one the calls describe: every field as
  last set, and the turns of all \<^verbatim>\<open>AddTurn\<close> calls in order. Whatever calls
  follow, the value read through that context stays the same in the later store
  (history, tools, system prompt and model configuration), and so does its projection.
\<close>

theorem build_snapshot_independent:
  assumes "calls grow cs0 (NewContextBuilder userID baseURL model) = Inr st"
  shows "load st (Build traceID now st) =
       fold specCall cs0 (specNew userID baseURL model traceID now) \<and>
     rc_ConversationHistory (load st (Build traceID now st)) = Some (turnsOf cs0) \<and>
     (\<forall>cs1 st'. calls grow cs1 st = Inr st' \<longrightarrow>
        load st' (Build traceID now st) = load st (Build traceID now st) \<and>
        ToOpenAIMessages (load st' (Build traceID now st)) =
          ToOpenAIMessages (load st (Build traceID now st)))"
proof (intro conjI allI impI)
  show a: "load st (Build traceID now st) =
       fold specCall cs0 (specNew userID baseURL model traceID now)"
    using calls_spec [OF wf_NewContextBuilder assms] load_NewContextBuilder by simp
  show "rc_ConversationHistory (load st (Build traceID now st)) = Some (turnsOf cs0)"
    unfolding a
    using fold_specCall_history [of "specNew userID baseURL model traceID now" "[]" cs0]
    by (simp add: specNew_def)
  have wf: "wf st" using wf_NewContextBuilder assms by (rule calls_wf)
  fix cs1 st'
  assume run: "calls grow cs1 st = Inr st'"
  have "loadSlice (st_turnArrays st') (b_conversationCtx (st_builder st)) =
        loadSlice (st_turnArrays st) (b_conversationCtx (st_builder st)) \<and>
      loadSlice (st_toolArrays st') (b_tools (st_builder st)) =
        loadSlice (st_toolArrays st) (b_tools (st_builder st))"
    using calls_kept [OF wf run wf_kept [OF wf] wf_allocated [OF wf]] by simp
  then show b: "load st' (Build traceID now st) = load st (Build traceID now st)"
    by (simp add: load_def Build_def)
  show "ToOpenAIMessages (load st' (Build traceID now st)) =
          ToOpenAIMessages (load st (Build traceID now st))"
    unfolding b ..
qed

theorem build_snapshot_independent_witness:
  "(case calls doubling [CallSetSystemPrompt ''sys'' None, exampleAddTurn 1 ''Hi'' ''Hello'']
       (NewContextBuilder ''user'' ''url'' ''model'') of
      Inl e \<Rightarrow> False
    | Inr st \<Rightarrow>
       (case calls doubling
           [exampleAddTurn 2 ''Bye'' ''Goodbye'', CallSetSystemPrompt ''other'' None,
            CallSetTools [], CallSetModelParams 0 100, CallSetSessionID ''s2''] st of
          Inl e \<Rightarrow> False
        | Inr st' \<Rightarrow>
            ToOpenAIMessages (load st' (Build ''t'' exampleTime st)) =
              [\<lparr>Role = ''system'', Content = ''sys'', ToolCallID = []\<rparr>,
               \<lparr>Role = ''user'', Content = ''Hi'', ToolCallID = []\<rparr>,
               \<lparr>Role = ''assistant'', Content = ''Hello'', ToolCallID = []\<rparr>] \<and>
            ToOpenAIMessages (load st' (Build ''t'' exampleTime st')) =
              [\<lparr>Role = ''system'', Content = ''other'', ToolCallID = []\<rparr>,
               \<lparr>Role = ''user'', Content = ''Hi'', ToolCallID = []\<rparr>,
               \<lparr>Role = ''assistant'', Content = ''Hello'', ToolCallID = []\<rparr>,
               \<lparr>Role = ''user'', Content = ''Bye'', ToolCallID = []\<rparr>,
               \<lparr>Role = ''assistant'', Content = ''Goodbye'', ToolCallID = []\<rparr>]))"
proof -
  let ?new = "NewContextBuilder ''user'' ''url'' ''model''"
  let ?cs0 = "[CallSetSystemPrompt ''sys'' None, exampleAddTurn 1 ''Hi'' ''Hello'']"
  let ?cs1 = "[exampleAddTurn 2 ''Bye'' ''Goodbye'', CallSetSystemPrompt ''other'' None,
            CallSetTools [], CallSetModelParams 0 100, CallSetSessionID ''s2'']"
  obtain st where st: "calls doubling ?cs0 ?new = Inr st"
    using calls_succeed [of ?cs0 doubling ?new] by (auto simp: panicFree_def exampleAddTurn_def)
  obtain st' where st': "calls doubling ?cs1 st = Inr st'"
    using calls_succeed [of ?cs1 doubling st] by (auto simp: panicFree_def exampleAddTurn_def)
  have both: "calls doubling (?cs0 @ ?cs1) ?new = Inr st'"
    using st st' by (rule calls_append)
  note old = build_snapshot_independent [OF st, of "''t''" exampleTime]
  note new = build_snapshot_independent [OF both, of "''t''" exampleTime]
  have "load st' (Build ''t'' exampleTime st) =
      fold specCall ?cs0 (specNew ''user'' ''url'' ''model'' ''t'' exampleTime)"
    using old [THEN conjunct2, THEN conjunct2, rule_format, OF st'] old [THEN conjunct1]
    by simp
  then have a: "ToOpenAIMessages (load st' (Build ''t'' exampleTime st)) =
              [\<lparr>Role = ''system'', Content = ''sys'', ToolCallID = []\<rparr>,
               \<lparr>Role = ''user'', Content = ''Hi'', ToolCallID = []\<rparr>,
               \<lparr>Role = ''assistant'', Content = ''Hello'', ToolCallID = []\<rparr>]"
    by (simp add: ToOpenAIMessages_def specNew_def exampleAddTurn_def newTurn_def elems_def
        ChatMessageRoleSystem_def ChatMessageRoleUser_def ChatMessageRoleAssistant_def)
  have "load st' (Build ''t'' exampleTime st') =
      fold specCall (?cs0 @ ?cs1) (specNew ''user'' ''url'' ''model'' ''t'' exampleTime)"
    using new by blast
  then have b: "ToOpenAIMessages (load st' (Build ''t'' exampleTime st')) =
              [\<lparr>Role = ''system'', Content = ''other'', ToolCallID = []\<rparr>,
               \<lparr>Role = ''user'', Content = ''Hi'', ToolCallID = []\<rparr>,
               \<lparr>Role = ''assistant'', Content = ''Hello'', ToolCallID = []\<rparr>,
               \<lparr>Role = ''user'', Content = ''Bye'', ToolCallID = []\<rparr>,
               \<lparr>Role = ''assistant'', Content = ''Goodbye'', ToolCallID = []\<rparr>]"
    by (simp add: ToOpenAIMessages_def specNew_def exampleAddTurn_def newTurn_def elems_def
        ChatMessageRoleSystem_def ChatMessageRoleUser_def ChatMessageRoleAssistant_def)
  from st st' a b show ?thesis by simp
qed

text \<open>
  Claim C10. The projection of every context begins with a system message carrying the
  system prompt's content, and its length is 1 plus the sum over the turns of 2 plus
  the number of tool calls. For a context built by a builder on which
  \<^verbatim>\<open>SetSystemPrompt\<close> was never called, that first message has empty content.
\<close>

theorem projection_begins_with_system:
  "(\<exists>rest. ToOpenAIMessages r =
       \<lparr>Role = ''system'', Content = sp_Content (rc_SystemPrompt r), ToolCallID = []\<rparr> # rest) \<and>
   length (ToOpenAIMessages r) =
     1 + sum_list (map (\<lambda>turn. 2 + length (elems (ct_ToolCalls turn)))
           (elems (rc_ConversationHistory r))) \<and>
   (\<forall>cs st. calls grow cs (NewContextBuilder userID baseURL model) = Inr st \<and>
        \<not> list_ex isSetSystemPrompt cs \<longrightarrow>
      (\<exists>rest. ToOpenAIMessages (load st (Build traceID now st)) =
         \<lparr>Role = ''system'', Content = [], ToolCallID = []\<rparr> # rest))"
proof (intro conjI allI impI)
  show "\<exists>rest. ToOpenAIMessages r =
       \<lparr>Role = ''system'', Content = sp_Content (rc_SystemPrompt r), ToolCallID = []\<rparr> # rest"
    by (simp add: ToOpenAIMessages_def appendTurnMessages_concat ChatMessageRoleSystem_def)
  show "length (ToOpenAIMessages r) =
     1 + sum_list (map (\<lambda>turn. 2 + length (elems (ct_ToolCalls turn)))
           (elems (rc_ConversationHistory r)))"
    by (simp add: ToOpenAIMessages_def appendTurnMessages_concat length_concat comp_def
        length_turnMessages)
next
  fix cs st
  assume h: "calls grow cs (NewContextBuilder userID baseURL model) = Inr st \<and>
        \<not> list_ex isSetSystemPrompt cs"
  from h have run: "calls grow cs (NewContextBuilder userID baseURL model) = Inr st"
    by simp
  have "load st (Build traceID now st) =
       fold specCall cs (specNew userID baseURL model traceID now)"
    using calls_spec [OF wf_NewContextBuilder run] load_NewContextBuilder by simp
  then have "sp_Content (rc_SystemPrompt (load st (Build traceID now st))) = []"
    using h fold_specCall_systemPrompt [of cs "specNew userID baseURL model traceID now"]
    by (simp add: specNew_def)
  then show "\<exists>rest. ToOpenAIMessages (load st (Build traceID now st)) =
         \<lparr>Role = ''system'', Content = [], ToolCallID = []\<rparr> # rest"
    by (simp add: ToOpenAIMessages_def appendTurnMessages_concat ChatMessageRoleSystem_def)
qed

theorem projection_begins_with_system_witness:
  "(case calls doubling [CallSetSessionID ''s'', exampleAddTurn 1 ''Hi'' ''Hello'']
       (NewContextBuilder ''user'' ''url'' ''model'') of
      Inl e \<Rightarrow> False
    | Inr st \<Rightarrow>
        hd (ToOpenAIMessages (load st (Build ''t'' exampleTime st))) =
          \<lparr>Role = ''system'', Content = [], ToolCallID = []\<rparr> \<and>
        length (ToOpenAIMessages (load st (Build ''t'' exampleTime st))) = 3)"
proof -
  let ?new = "NewContextBuilder ''user'' ''url'' ''model''"
  let ?cs = "[CallSetSessionID ''s'', exampleAddTurn 1 ''Hi'' ''Hello'']"
  obtain st where st: "calls doubling ?cs ?new = Inr st"
    using calls_succeed [of ?cs doubling ?new] by (auto simp: panicFree_def exampleAddTurn_def)
  let ?r = "load st (Build ''t'' exampleTime st)"
  note inst = projection_begins_with_system [of "?r" doubling "''user''" "''url''" "''model''"
      "''t''" exampleTime]
  have no: "\<not> list_ex isSetSystemPrompt ?cs"
    by (simp add: isSetSystemPrompt_def exampleAddTurn_def)
  from inst st no obtain rest where
    "ToOpenAIMessages ?r = \<lparr>Role = ''system'', Content = [], ToolCallID = []\<rparr> # rest"
    by blast
  then have a: "hd (ToOpenAIMessages ?r) = \<lparr>Role = ''system'', Content = [], ToolCallID = []\<rparr>"
    by simp
  have "wf st" using wf_NewContextBuilder st by (rule calls_wf)
  then have "rc_ConversationHistory ?r = Some (turnsOf ?cs)"
    using calls_history [OF st] by (simp add: load_def Build_def wf_history)
  then have b: "length (ToOpenAIMessages ?r) = 3"
    using inst by (simp add: elems_def exampleAddTurn_def newTurn_def)
  from st a b show ?thesis by simp
qed

section \<open>Properties of the recorder\<close>






section \<open>Properties of the codec\<close>

lemma runeLen_le: "runeLen (c # cs) \<le> Suc (length cs)"
  by (simp add: Let_def split: list.splits)

lemma runeLen_prefix:
  assumes "runeLen (c # cs) = n" and "0 < n"
  shows "runeLen (c # take (n - 1) cs @ t) = n"
proof -
  consider (ascii) "byte c < 0x80"
    | (two) "\<not> byte c < 0x80" "0xC2 \<le> byte c \<and> byte c \<le> 0xDF"
    | (three) "\<not> byte c < 0x80" "\<not> (0xC2 \<le> byte c \<and> byte c \<le> 0xDF)"
        "0xE0 \<le> byte c \<and> byte c \<le> 0xEF"
    | (four) "\<not> byte c < 0x80" "\<not> (0xC2 \<le> byte c \<and> byte c \<le> 0xDF)"
        "\<not> (0xE0 \<le> byte c \<and> byte c \<le> 0xEF)" "0xF0 \<le> byte c \<and> byte c \<le> 0xF4"
    | (none) "\<not> byte c < 0x80" "\<not> (0xC2 \<le> byte c \<and> byte c \<le> 0xDF)"
        "\<not> (0xE0 \<le> byte c \<and> byte c \<le> 0xEF)" "\<not> (0xF0 \<le> byte c \<and> byte c \<le> 0xF4)"
    by blast
  then show ?thesis
  proof cases
    case ascii
    then show ?thesis using assms by simp
  next
    case two
    then obtain c1 r where "cs = c1 # r" "between 0x80 0xBF c1" "n = 2"
      using assms by (auto split: list.splits if_splits)
    then show ?thesis using two by simp
  next
    case three
    let ?lo = "if byte c = 0xE0 then 0xA0 else 0x80" and ?hi = "if byte c = 0xED then 0x9F else 0xBF"
    from three obtain c1 c2 r where "cs = c1 # c2 # r" "between ?lo ?hi c1"
      "between 0x80 0xBF c2" "n = 3"
      using assms by (auto simp: Let_def split: list.splits if_splits)
    then show ?thesis using three by simp
  next
    case four
    let ?lo = "if byte c = 0xF0 then 0x90 else 0x80" and ?hi = "if byte c = 0xF4 then 0x8F else 0xBF"
    from four obtain c1 c2 c3 r where "cs = c1 # c2 # c3 # r" "between ?lo ?hi c1"
      "between 0x80 0xBF c2" "between 0x80 0xBF c3" "n = 4"
      using assms by (auto simp: Let_def split: list.splits if_splits)
    then show ?thesis using four by simp
  next
    case none
    then show ?thesis using assms by (auto simp: Let_def split: if_splits)
  qed
qed

lemma runeLen_replacement: "runeLen (replacement @ t) = 3"
  by (simp add: replacement_def byte_def between_def)

lemma validUTF8_toValidUTF8: "validUTF8 (toValidUTF8 s)"
proof (induction s rule: toValidUTF8.induct)
  case 1
  show ?case by simp
next
  case (2 c cs)
  let ?n = "runeLen (c # cs)"
  show ?case
  proof (cases "?n = 0")
    case True
    have "validUTF8 (replacement @ toValidUTF8 cs)"
      using runeLen_replacement [of "toValidUTF8 cs"] "2.IH"(1) [OF refl True]
      by (simp add: replacement_def)
    then show ?thesis using True by (simp del: runeLen.simps)
  next
    case False
    let ?t = "toValidUTF8 (drop (?n - 1) cs)"
    have len: "?n - 1 \<le> length cs" using runeLen_le [of c cs] by simp
    have r: "runeLen (c # take (?n - 1) cs @ ?t) = ?n"
      using False by (intro runeLen_prefix) simp_all
    have "validUTF8 ?t" using "2.IH"(2) [OF refl False] .
    then have "validUTF8 (c # take (?n - 1) cs @ ?t)"
      using r False len by (simp del: runeLen.simps add: min_absorb2)
    then show ?thesis using False by (simp del: runeLen.simps validUTF8.simps add: Let_def)
  qed
qed

lemma toValidUTF8_fixed: "validUTF8 s \<Longrightarrow> toValidUTF8 s = s"
proof (induction s rule: toValidUTF8.induct)
  case 1
  show ?case by simp
next
  case (2 c cs)
  let ?n = "runeLen (c # cs)"
  from "2.prems" have n: "?n \<noteq> 0" and v: "validUTF8 (drop (?n - 1) cs)"
    by (simp_all del: runeLen.simps add: Let_def)
  have "toValidUTF8 (drop (?n - 1) cs) = drop (?n - 1) cs"
    using "2.IH"(2) [OF refl n v] .
  then show ?case using n by (simp del: runeLen.simps)
qed

lemma toValidUTF8_idem: "toValidUTF8 (toValidUTF8 s) = toValidUTF8 s"
  by (rule toValidUTF8_fixed) (rule validUTF8_toValidUTF8)

lemma validUTF8_iff: "validUTF8 s = (toValidUTF8 s = s)"
  using toValidUTF8_fixed validUTF8_toValidUTF8 by metis

lemma collect_Inr: "(collect xs = Inr vs) = (xs = map Inr vs)"
proof (induction xs arbitrary: vs)
  case Nil
  show ?case by auto
next
  case (Cons x xs)
  show ?case
  proof (cases x)
    case (Inl e)
    then show ?thesis by auto
  next
    case (Inr v)
    show ?thesis
    proof (cases "collect xs")
      case (Inl e)
      then have "\<And>ws. xs \<noteq> map Inr ws" using Cons.IH by auto
      then show ?thesis using Inl \<open>x = Inr v\<close> by (cases vs) auto
    next
      case r: (Inr ws)
      then have "xs = map Inr ws" using Cons.IH by simp
      then show ?thesis using r \<open>x = Inr v\<close> by (cases vs) (auto simp: inj_map_eq_map)
    qed
  qed
qed

lemma collect_map_Inr:
  "collect (map f xs) = Inr ys \<Longrightarrow> list_all2 (\<lambda>x y. f x = Inr y) xs ys"
  by (simp add: collect_Inr list_all2_conv_all_nth map_equality_iff)

lemma collect_map_succeeds:
  "list_all2 (\<lambda>x y. f x = Inr y) xs ys \<Longrightarrow> collect (map f xs) = Inr ys"
  by (simp add: collect_Inr list_all2_conv_all_nth map_equality_iff)

lemma object_Inr:
  "(object members = Inr j) =
     (\<exists>vs. map snd members = map Inr vs \<and> j = JObject (zip (map fst members) vs))"
proof
  assume "object members = Inr j"
  then obtain kvs where kvs: "collect (map (\<lambda>(name, e). map_sum id (Pair name) e) members) = Inr kvs"
    and j: "j = JObject kvs"
    by (auto simp: object_def map_sum_def split: sum.splits)
  from kvs have eq: "map (\<lambda>(name, e). map_sum id (Pair name) e) members = map Inr kvs"
    by (simp add: collect_Inr)
  then have len: "length kvs = length members"
    using map_eq_imp_length_eq [OF eq] by simp
  have nth: "\<forall>i<length members. snd (members ! i) = Inr (snd (kvs ! i)) \<and>
      fst (kvs ! i) = fst (members ! i)"
  proof (intro allI impI)
    fix i assume i: "i < length members"
    have "map (\<lambda>(name, e). map_sum id (Pair name) e) members ! i = map Inr kvs ! i"
      using eq by simp
    then have "(\<lambda>(name, e). map_sum id (Pair name) e) (members ! i) = Inr (kvs ! i)"
      using i len by simp
    then show "snd (members ! i) = Inr (snd (kvs ! i)) \<and> fst (kvs ! i) = fst (members ! i)"
      by (cases "members ! i"; cases "snd (members ! i)"; cases "kvs ! i") (auto simp: map_sum_def)
  qed
  have "map snd members = map Inr (map snd kvs)"
    using len nth by (intro nth_equalityI) simp_all
  moreover have "kvs = zip (map fst members) (map snd kvs)"
    using len nth by (intro nth_equalityI) (simp_all add: prod_eq_iff)
  ultimately show "\<exists>vs. map snd members = map Inr vs \<and> j = JObject (zip (map fst members) vs)"
    using j by blast
next
  assume "\<exists>vs. map snd members = map Inr vs \<and> j = JObject (zip (map fst members) vs)"
  then obtain vs where vs: "map snd members = map Inr vs"
    and j: "j = JObject (zip (map fst members) vs)" by blast
  have len: "length vs = length members"
    using map_eq_imp_length_eq [OF vs] by simp
  have "map (\<lambda>(name, e). map_sum id (Pair name) e) members = map Inr (zip (map fst members) vs)"
  proof (intro nth_equalityI)
    show "length (map (\<lambda>(name, e). map_sum id (Pair name) e) members) =
        length (map Inr (zip (map fst members) vs))"
      using len by simp
  next
    fix i assume "i < length (map (\<lambda>(name, e). map_sum id (Pair name) e) members)"
    then have i: "i < length members" by simp
    have "map snd members ! i = map Inr vs ! i" using vs by simp
    then have "snd (members ! i) = Inr (vs ! i)" using i len by simp
    then show "map (\<lambda>(name, e). map_sum id (Pair name) e) members ! i =
        map Inr (zip (map fst members) vs) ! i"
      using i len by (cases "members ! i") (simp add: map_sum_def)
  qed
  then have "collect (map (\<lambda>(name, e). map_sum id (Pair name) e) members) =
      Inr (zip (map fst members) vs)"
    by (simp only: collect_Inr)
  then show "object members = Inr j"
    using j by (simp add: object_def)
qed

lemma collect_succeeds:
  "\<forall>x \<in> set xs. \<exists>v. f x = Inr v \<Longrightarrow> \<exists>vs. collect (map f xs) = Inr vs"
proof (induction xs)
  case Nil
  show ?case by simp
next
  case (Cons x xs)
  then obtain v vs where "f x = Inr v" "collect (map f xs) = Inr vs" by auto
  then show ?case by simp
qed

lemma membersMap_succeeds:
  "\<forall>m \<in> set members. \<exists>v. snd m = Inr v \<Longrightarrow> \<exists>mp. membersMap members = Inr mp"
proof -
  assume a: "\<forall>m \<in> set members. \<exists>v. snd m = Inr v"
  have "\<forall>m \<in> set members. \<exists>v. (\<lambda>(k, e). map_sum id (Pair (toValidUTF8 k)) e) m = Inr v"
  proof
    fix m assume "m \<in> set members"
    then obtain v where "snd m = Inr v" using a by blast
    then show "\<exists>v. (\<lambda>(k, e). map_sum id (Pair (toValidUTF8 k)) e) m = Inr v"
      by (cases m) simp
  qed
  then obtain kvs where
    "collect (map (\<lambda>(k, e). map_sum id (Pair (toValidUTF8 k)) e) members) = Inr kvs"
    using collect_succeeds by blast
  then show ?thesis by (simp add: membersMap_def)
qed

text \<open>The documents that \<open>encAny\<close> writes: no integer and no timestamp leaf.\<close>

lemma decAny_succeeds_array:
  "\<forall>j \<in> set js. \<exists>v. decAny j = Inr v \<Longrightarrow> \<exists>v. decAny (JArray js) = Inr v"
  using collect_succeeds [of js decAny] by auto

lemma decAny_succeeds_object:
  assumes "\<forall>kv \<in> set kvs. \<exists>v. decAny (snd kv) = Inr v"
  shows "\<exists>mp. membersMap (map (map_prod id decAny) kvs) = Inr mp"
  using assms by (intro membersMap_succeeds) auto

lemma encAny_decAny: "encAny v = Inr j \<Longrightarrow> \<exists>v'. decAny j = Inr v'"
proof (induction v arbitrary: j)
  case AnyNil
  then show ?case by auto
next
  case (AnyBool b)
  then show ?case by (auto simp: encBool_def)
next
  case (AnyFloat f)
  then show ?case by (auto simp: encFloat_def split: if_splits)
next
  case (AnyString s)
  then show ?case by (auto simp: encString_def)
next
  case (AnySlice xs)
  from AnySlice.prems obtain js where js: "collect (map encAny xs) = Inr js" "j = JArray js"
    by (auto simp: map_sum_def split: sum.splits)
  have "\<forall>j' \<in> set js. \<exists>v. decAny j' = Inr v"
  proof
    fix j' assume "j' \<in> set js"
    then obtain i where i: "i < length js" "js ! i = j'" by (auto simp: in_set_conv_nth)
    have l: "list_all2 (\<lambda>x y. encAny x = Inr y) xs js"
      using js(1) by (rule collect_map_Inr)
    then have "encAny (xs ! i) = Inr j'" "xs ! i \<in> set xs"
      using i by (auto simp: list_all2_conv_all_nth)
    then show "\<exists>v. decAny j' = Inr v" using AnySlice.IH by blast
  qed
  then show ?case using decAny_succeeds_array js(2) by blast
next
  case (AnyMap m)
  let ?members = "map (\<lambda>(k, e). (toValidUTF8 k, e)) (sorted_list_of_fmap (fmmap encAny m))"
  from AnyMap.prems obtain vs where vs: "map snd ?members = map Inr vs"
    and j: "j = JObject (zip (map fst ?members) vs)"
    by (auto simp: object_Inr)
  have len: "length vs = length ?members"
    using map_eq_imp_length_eq [OF vs] by simp
  have "\<forall>kv \<in> set (zip (map fst ?members) vs). \<exists>v. decAny (snd kv) = Inr v"
  proof
    fix kv assume "kv \<in> set (zip (map fst ?members) vs)"
    then obtain i where i: "i < length vs" "vs ! i = snd kv"
      by (auto simp: in_set_conv_nth)
    have "map snd ?members ! i = map Inr vs ! i" using vs by simp
    then have e: "snd (?members ! i) = Inr (snd kv)" using i len by simp
    have "?members ! i \<in> set ?members" using i len by simp
    then obtain k where "(k, Inr (snd kv)) \<in> set (sorted_list_of_fmap (fmmap encAny m))"
      using e by auto
    then have "fmlookup (fmmap encAny m) k = Some (Inr (snd kv))"
      by (auto simp: sorted_list_of_fmap_def fmlookup_dom_iff)
    then obtain x where "fmlookup m k = Some x" "encAny x = Inr (snd kv)" by auto
    then show "\<exists>v. decAny (snd kv) = Inr v"
      using AnyMap.IH [of x] by (auto intro: fmran'I)
  qed
  then obtain mp where
    "membersMap (map (map_prod id decAny) (zip (map fst ?members) vs)) = Inr mp"
    using decAny_succeeds_object by blast
  then show ?case
    unfolding j by simp
qed

lemma encMap_decMap: "encMap m = Inr j \<Longrightarrow> \<exists>m'. decMap j = Inr m'"
proof (cases m)
  case None
  assume "encMap m = Inr j"
  then show ?thesis using None by (simp add: encMap_def decMap_def)
next
  case (Some mp)
  assume e: "encMap m = Inr j"
  then have a: "encAny (AnyMap mp) = Inr j" using Some by (simp add: encMap_def)
  then obtain kvs where kvs: "j = JObject kvs" by (auto simp: object_Inr)
  from a obtain v' where "decAny j = Inr v'" using encAny_decAny by blast
  then show ?thesis
    using kvs by (auto simp: decMap_def map_sum_def split: sum.splits)
qed

lemma decString_encString: "encString s = Inr j \<Longrightarrow> decString j = Inr (toValidUTF8 s)"
  by (auto simp: encString_def decString_def toValidUTF8_idem)

lemma decBool_encBool: "encBool b = Inr j \<Longrightarrow> decBool j = Inr b"
  by (auto simp: encBool_def decBool_def)

lemma decInt_encInt: "encInt i = Inr j \<Longrightarrow> decInt j = Inr i"
  using sint_ge [of i] sint_lt [of i] by (auto simp: encInt_def decInt_def)

lemma decFloat_encFloat: "encFloat f = Inr j \<Longrightarrow> decFloat j = Inr f"
  by (auto simp: encFloat_def decFloat_def split: if_splits)

lemma decTime_encTime: "encTime t = Inr j \<Longrightarrow> \<exists>t'. decTime j = Inr t'"
  by (auto simp: encTime_def decTime_def Let_def split: if_splits)

lemma encSlice_decSlice:
  assumes "encSlice enc s = Inr j"
    and "\<And>x j'. x \<in> set (elems s) \<Longrightarrow> enc x = Inr j' \<Longrightarrow> \<exists>x'. dec j' = Inr x' \<and> R x x'"
  shows "\<exists>s'. decSlice dec j = Inr s' \<and> list_all2 R (elems s) (elems s')"
proof (cases s)
  case None
  then show ?thesis using assms(1) by (simp add: encSlice_def decSlice_def elems_def)
next
  case (Some xs)
  then obtain js where js: "collect (map enc xs) = Inr js" "j = JArray js"
    using assms(1) by (auto simp: encSlice_def map_sum_def split: sum.splits)
  have l: "list_all2 (\<lambda>x y. enc x = Inr y) xs js"
    using js(1) by (rule collect_map_Inr)
  have "\<exists>xs'. list_all2 (\<lambda>j' x'. dec j' = Inr x') js xs' \<and> list_all2 R xs xs'"
    using l assms(2) Some
  proof (induction xs js arbitrary: s rule: list_all2_induct)
    case Nil
    show ?case by simp
  next
    case (Cons x xs y js)
    have "\<exists>xs'. list_all2 (\<lambda>j' x'. dec j' = Inr x') js xs' \<and> list_all2 R xs xs'"
      using Cons.IH [of "Some xs"] Cons.prems by (simp add: elems_def)
    moreover have "\<exists>x'. dec y = Inr x' \<and> R x x'"
      using Cons.prems Cons.hyps(1) by (simp add: elems_def)
    ultimately show ?case by (auto simp: list_all2_Cons1 list_all2_Cons2)
  qed
  then obtain xs' where xs': "list_all2 (\<lambda>j' x'. dec j' = Inr x') js xs'" "list_all2 R xs xs'"
    by blast
  have "collect (map dec js) = Inr xs'" using xs'(1) by (rule collect_map_succeeds)
  then show ?thesis using js(2) xs'(2) Some by (simp add: decSlice_def elems_def)
qed

lemma encUserMessage_dec:
  "encUserMessage um = Inr j \<Longrightarrow>
   \<exists>um'. decUserMessage j = Inr um' \<and> um_Content um' = toValidUTF8 (um_Content um)"
  by (auto simp: encUserMessage_def decUserMessage_def object_def struct_def covered_def
      field_def bnd_def encString_def decString_def toValidUTF8_idem split: sum.splits)

lemma object_is_JObject:
  assumes "object members = Inr j"
  obtains kvs where "j = JObject kvs"
  using assms by (auto simp: object_Inr)

lemma object_member_Inr:
  assumes "object members = Inr j" and "(n, e) \<in> set members"
  obtains v where "e = Inr v"
proof -
  from assms(1) obtain vs where vs: "map snd members = map Inr vs"
    by (auto simp: object_Inr)
  have "e \<in> set (map snd members)" using assms(2) by force
  then have "e \<in> set (map Inr vs)" using vs by simp
  then show ?thesis using that by auto
qed

lemma map_of_zip_Inr:
  "map snd members = map Inr vs \<Longrightarrow>
   map_of (zip (map fst members) vs) n = map_option projr (map_of members n)"
proof (induction members arbitrary: vs)
  case Nil
  then show ?case by simp
next
  case (Cons m members)
  then obtain v vs' where vs: "vs = v # vs'" "snd m = Inr v" "map snd members = map Inr vs'"
    by (auto simp: Cons_eq_map_conv)
  then show ?case using Cons.IH [OF vs(3)] by (cases m) auto
qed

lemma field_of_object:
  assumes "object members = Inr (JObject kvs)"
  shows "field dec zero n kvs =
     (case map_of members n of None \<Rightarrow> Inr zero | Some e \<Rightarrow> bnd e dec)"
proof -
  from assms obtain vs where vs: "map snd members = map Inr vs"
    and kvs: "kvs = zip (map fst members) vs"
    by (auto simp: object_Inr)
  show ?thesis
  proof (cases "map_of members n")
    case None
    then show ?thesis
      using map_of_zip_Inr [OF vs, of n] kvs by (simp add: field_def)
  next
    case (Some e)
    then have "(n, e) \<in> set members" by (rule map_of_SomeD)
    then obtain v where "e = Inr v" using assms object_member_Inr by blast
    then show ?thesis
      using Some map_of_zip_Inr [OF vs, of n] kvs by (simp add: field_def bnd_def)
  qed
qed

lemma covered_of_object:
  assumes "object members = Inr (JObject kvs)" and "distinct (map fst members)"
    and "list_all (\<lambda>k. k \<in> set names) (map fst members)"
  shows "covered names kvs"
proof -
  from assms(1) obtain vs where vs: "map snd members = map Inr vs"
    and kvs: "kvs = zip (map fst members) vs"
    by (auto simp: object_Inr)
  have "length vs = length members" using map_eq_imp_length_eq [OF vs] by simp
  then have "map fst kvs = map fst members" using kvs by simp
  then show ?thesis using assms(2,3) by (simp add: covered_def)
qed

lemma struct_of_object:
  assumes "object members = Inr j" and "distinct (map fst members)"
    and "list_all (\<lambda>k. k \<in> set names) (map fst members)"
  obtains kvs where "j = JObject kvs" "object members = Inr (JObject kvs)" "covered names kvs"
proof -
  from assms(1) obtain kvs where kvs: "j = JObject kvs" by (rule object_is_JObject)
  then have "covered names kvs" using assms covered_of_object by blast
  then show ?thesis using that kvs assms(1) by blast
qed

lemma member_field:
  assumes "object members = Inr (JObject kvs)" and "map_of members n = Some e"
    and "\<And>v. e = Inr v \<Longrightarrow> \<exists>x. dec v = Inr x \<and> P x"
  shows "\<exists>x. field dec zero n kvs = Inr x \<and> P x"
proof -
  have "(n, e) \<in> set members" using assms(2) by (rule map_of_SomeD)
  then obtain v where v: "e = Inr v" using assms(1) object_member_Inr by blast
  then obtain x where "dec v = Inr x" "P x" using assms(3) by blast
  then show ?thesis
    using field_of_object [OF assms(1), of dec zero n] assms(2) v by (simp add: bnd_def)
qed

lemma absent_field:
  assumes "object members = Inr (JObject kvs)" and "map_of members n = None"
  shows "field dec zero n kvs = Inr zero"
  using field_of_object [OF assms(1), of dec zero n] assms(2) by simp

lemma string_field:
  assumes "object members = Inr (JObject kvs)" and "map_of members n = Some (encString s)"
  shows "field decString [] n kvs = Inr (toValidUTF8 s)"
  using field_of_object [OF assms(1), of decString "[]" n] assms(2)
  by (simp add: bnd_def encString_def decString_def toValidUTF8_idem)

lemma optional_string_field:
  assumes "object members = Inr (JObject kvs)"
    and "map_of members n = (if s = [] then None else Some (encString s))"
  shows "field decString [] n kvs = Inr (toValidUTF8 s)"
  using field_of_object [OF assms(1), of decString "[]" n] assms(2)
  by (simp add: bnd_def encString_def decString_def toValidUTF8_idem)

lemma int_field:
  assumes "object members = Inr (JObject kvs)" and "map_of members n = Some (encInt i)"
  shows "field decInt 0 n kvs = Inr i"
  using field_of_object [OF assms(1), of decInt 0 n] assms(2) decInt_encInt [of i]
  by (simp add: bnd_def encInt_def)

lemma bool_field:
  assumes "object members = Inr (JObject kvs)" and "map_of members n = Some (encBool b)"
  shows "field decBool False n kvs = Inr b"
  using field_of_object [OF assms(1), of decBool False n] assms(2)
  by (simp add: bnd_def encBool_def decBool_def)

lemma float_field:
  assumes "object members = Inr (JObject kvs)" and "map_of members n = Some (encFloat f)"
  shows "\<exists>x. field decFloat 0 n kvs = Inr x"
  using member_field [OF assms, of decFloat "\<lambda>x. True" 0] decFloat_encFloat by auto

lemma map_field:
  assumes "object members = Inr (JObject kvs)" and "map_of members n = Some (encMap m)"
  shows "\<exists>x. field decMap None n kvs = Inr x"
  using member_field [OF assms, of decMap "\<lambda>x. True" None] encMap_decMap by auto

lemma optional_map_field:
  assumes "object members = Inr (JObject kvs)"
    and "map_of members n = (if emptyMap m then None else Some (encMap m))"
  shows "\<exists>x. field decMap None n kvs = Inr x"
proof (cases "emptyMap m")
  case True
  then show ?thesis using absent_field [OF assms(1), of n decMap None] assms(2) by simp
next
  case False
  then show ?thesis using map_field [OF assms(1), of n m] assms(2) by simp
qed

lemma encSystemPrompt_dec:
  assumes "encSystemPrompt sp = Inr j"
  shows "\<exists>sp'. decSystemPrompt j = Inr sp' \<and> sp_Content sp' = toValidUTF8 (sp_Content sp)"
proof -
  let ?ms = "[(''content'', encString (sp_Content sp)), (''role'', encString (sp_Role sp))]
        @ omitempty (emptyMap (sp_Metadata sp)) (''metadata'', encMap (sp_Metadata sp))"
  have obj: "object ?ms = Inr j" using assms by (simp add: encSystemPrompt_def)
  have "distinct (map fst ?ms)"
    and "list_all (\<lambda>k. k \<in> set [''content'', ''role'', ''metadata'']) (map fst ?ms)"
    by (simp_all add: omitempty_def)
  with obj obtain kvs where kvs: "j = JObject kvs" "object ?ms = Inr (JObject kvs)"
    and cov: "covered [''content'', ''role'', ''metadata''] kvs"
    by (rule struct_of_object)
  have "field decString [] ''content'' kvs = Inr (toValidUTF8 (sp_Content sp))"
    by (rule string_field [OF kvs(2)]) simp
  moreover have "field decString [] ''role'' kvs = Inr (toValidUTF8 (sp_Role sp))"
    by (rule string_field [OF kvs(2)]) simp
  moreover have "\<exists>x. field decMap None ''metadata'' kvs = Inr x"
    by (rule optional_map_field [OF kvs(2), of _ "sp_Metadata sp"]) (simp add: omitempty_def)
  ultimately show ?thesis
    unfolding decSystemPrompt_def kvs(1) using cov by (auto simp: struct_def bnd_def)
qed

lemma struct_field:
  assumes "object members = Inr (JObject kvs)" and "map_of members n = Some e"
    and "\<And>v. e = Inr v \<Longrightarrow> \<exists>x. dec v = Inr x"
  shows "\<exists>x. field dec zero n kvs = Inr x"
  using member_field [OF assms(1,2), of dec "\<lambda>x. True" zero] assms(3) by auto

lemma encLLMResponse_dec:
  assumes "encLLMResponse llm = Inr j"
  shows "\<exists>llm'. decLLMResponse j = Inr llm' \<and> llm_Content llm' = toValidUTF8 (llm_Content llm)"
proof -
  let ?names = "[''role'', ''content'', ''tool_calls'', ''reasoning'', ''finish_reason'']"
  let ?ms = "[(''role'', encString (llm_Role llm)),
         (''content'', encString (llm_Content llm)),
         (''tool_calls'', encBool (llm_ToolCalls llm))]
        @ omitempty (llm_Reasoning llm = []) (''reasoning'', encString (llm_Reasoning llm))
        @ omitempty (llm_FinishReason llm = [])
            (''finish_reason'', encString (llm_FinishReason llm))"
  have obj: "object ?ms = Inr j" using assms by (simp add: encLLMResponse_def)
  have "distinct (map fst ?ms)" and "list_all (\<lambda>k. k \<in> set ?names) (map fst ?ms)"
    by (simp_all add: omitempty_def)
  with obj obtain kvs where kvs: "j = JObject kvs" "object ?ms = Inr (JObject kvs)"
    and cov: "covered ?names kvs"
    by (rule struct_of_object)
  have "field decString [] ''role'' kvs = Inr (toValidUTF8 (llm_Role llm))"
    by (rule string_field [OF kvs(2)]) simp
  moreover have "field decString [] ''content'' kvs = Inr (toValidUTF8 (llm_Content llm))"
    by (rule string_field [OF kvs(2)]) simp
  moreover have "field decBool False ''tool_calls'' kvs = Inr (llm_ToolCalls llm)"
    by (rule bool_field [OF kvs(2)]) simp
  moreover have "field decString [] ''reasoning'' kvs = Inr (toValidUTF8 (llm_Reasoning llm))"
    by (rule optional_string_field [OF kvs(2)]) (simp add: omitempty_def)
  moreover have "field decString [] ''finish_reason'' kvs = Inr (toValidUTF8 (llm_FinishReason llm))"
    by (rule optional_string_field [OF kvs(2)]) (simp add: omitempty_def)
  ultimately show ?thesis
    unfolding decLLMResponse_def kvs(1) using cov by (simp add: struct_def bnd_def)
qed

lemma encTokenUsage_dec:
  assumes "encTokenUsage tu = Inr j"
  shows "\<exists>tu'. decTokenUsage j = Inr tu'"
proof -
  let ?names = "[''prompt_tokens'', ''completion_tokens'', ''total_tokens'']"
  let ?ms = "[(''prompt_tokens'', encInt (tu_PromptTokens tu)),
        (''completion_tokens'', encInt (tu_CompletionTokens tu)),
        (''total_tokens'', encInt (tu_TotalTokens tu))]"
  have obj: "object ?ms = Inr j" using assms by (simp add: encTokenUsage_def)
  have "distinct (map fst ?ms)" and "list_all (\<lambda>k. k \<in> set ?names) (map fst ?ms)"
    by simp_all
  with obj obtain kvs where kvs: "j = JObject kvs" "object ?ms = Inr (JObject kvs)"
    and cov: "covered ?names kvs"
    by (rule struct_of_object)
  have "field decInt 0 ''prompt_tokens'' kvs = Inr (tu_PromptTokens tu)"
    by (rule int_field [OF kvs(2)]) simp
  moreover have "field decInt 0 ''completion_tokens'' kvs = Inr (tu_CompletionTokens tu)"
    by (rule int_field [OF kvs(2)]) simp
  moreover have "field decInt 0 ''total_tokens'' kvs = Inr (tu_TotalTokens tu)"
    by (rule int_field [OF kvs(2)]) simp
  ultimately show ?thesis
    unfolding decTokenUsage_def kvs(1) using cov by (simp add: struct_def bnd_def)
qed

lemma encToolDefinition_dec:
  assumes "encToolDefinition td = Inr j"
  shows "\<exists>td'. decToolDefinition j = Inr td'"
proof -
  let ?names = "[''type'', ''function'']"
  let ?ms = "[(''type'', encString (td_Type td)), (''function'', encMap (td_Function td))]"
  have obj: "object ?ms = Inr j" using assms by (simp add: encToolDefinition_def)
  have "distinct (map fst ?ms)" and "list_all (\<lambda>k. k \<in> set ?names) (map fst ?ms)"
    by simp_all
  with obj obtain kvs where kvs: "j = JObject kvs" "object ?ms = Inr (JObject kvs)"
    and cov: "covered ?names kvs"
    by (rule struct_of_object)
  have "field decString [] ''type'' kvs = Inr (toValidUTF8 (td_Type td))"
    by (rule string_field [OF kvs(2)]) simp
  moreover have "\<exists>x. field decMap None ''function'' kvs = Inr x"
    by (rule map_field [OF kvs(2), of _ "td_Function td"]) simp
  ultimately show ?thesis
    unfolding decToolDefinition_def kvs(1) using cov by (auto simp: struct_def bnd_def)
qed

lemma encModelConfig_dec:
  assumes "encModelConfig mc = Inr j"
  shows "\<exists>mc'. decModelConfig j = Inr mc'"
proof -
  let ?names = "[''model'', ''base_url'', ''temperature'', ''max_tokens'', ''top_p'',
        ''frequency_penalty'', ''presence_penalty'', ''extra_params'']"
  let ?ms = "[(''model'', encString (mc_Model mc)),
         (''base_url'', encString (mc_BaseURL mc)),
         (''temperature'', encFloat (mc_Temperature mc)),
         (''max_tokens'', encInt (mc_MaxTokens mc)),
         (''top_p'', encFloat (mc_TopP mc)),
         (''frequency_penalty'', encFloat (mc_FrequencyPenalty mc)),
         (''presence_penalty'', encFloat (mc_PresencePenalty mc))]
        @ omitempty (emptyMap (mc_ExtraParams mc)) (''extra_params'', encMap (mc_ExtraParams mc))"
  have obj: "object ?ms = Inr j" using assms by (simp add: encModelConfig_def)
  have "distinct (map fst ?ms)" and "list_all (\<lambda>k. k \<in> set ?names) (map fst ?ms)"
    by (simp_all add: omitempty_def)
  with obj obtain kvs where kvs: "j = JObject kvs" "object ?ms = Inr (JObject kvs)"
    and cov: "covered ?names kvs"
    by (rule struct_of_object)
  have "field decString [] ''model'' kvs = Inr (toValidUTF8 (mc_Model mc))"
    by (rule string_field [OF kvs(2)]) simp
  moreover have "field decString [] ''base_url'' kvs = Inr (toValidUTF8 (mc_BaseURL mc))"
    by (rule string_field [OF kvs(2)]) simp
  moreover have "\<exists>x. field decFloat 0 ''temperature'' kvs = Inr x"
    by (rule float_field [OF kvs(2), of _ "mc_Temperature mc"]) simp
  moreover have "field decInt 0 ''max_tokens'' kvs = Inr (mc_MaxTokens mc)"
    by (rule int_field [OF kvs(2)]) simp
  moreover have "\<exists>x. field decFloat 0 ''top_p'' kvs = Inr x"
    by (rule float_field [OF kvs(2), of _ "mc_TopP mc"]) simp
  moreover have "\<exists>x. field decFloat 0 ''frequency_penalty'' kvs = Inr x"
    by (rule float_field [OF kvs(2), of _ "mc_FrequencyPenalty mc"]) simp
  moreover have "\<exists>x. field decFloat 0 ''presence_penalty'' kvs = Inr x"
    by (rule float_field [OF kvs(2), of _ "mc_PresencePenalty mc"]) simp
  moreover have "\<exists>x. field decMap None ''extra_params'' kvs = Inr x"
    by (rule optional_map_field [OF kvs(2), of _ "mc_ExtraParams mc"]) (simp add: omitempty_def)
  ultimately show ?thesis
    unfolding decModelConfig_def kvs(1) using cov by (auto simp: struct_def bnd_def)
qed

lemma encToolCallExecution_dec:
  assumes "encToolCallExecution tc = Inr j"
  shows "\<exists>tc'. decToolCallExecution j = Inr tc' \<and>
     toolMessage tc' = coerceMessage (toolMessage tc)"
proof -
  let ?names = "[''tool_name'', ''tool_id'', ''arguments'', ''result'', ''start_time'',
        ''end_time'', ''duration_ms'', ''success'', ''error'']"
  let ?ms = "[(''tool_name'', encString (tc_ToolName tc)),
         (''tool_id'', encString (tc_ToolID tc)),
         (''arguments'', encMap (tc_Arguments tc)),
         (''result'', encString (tc_Result tc)),
         (''start_time'', encString (tc_StartTime tc)),
         (''end_time'', encString (tc_EndTime tc)),
         (''duration_ms'', encInt (tc_DurationMs tc)),
         (''success'', encBool (tc_Success tc))]
        @ omitempty (tc_Error tc = []) (''error'', encString (tc_Error tc))"
  have obj: "object ?ms = Inr j" using assms by (simp add: encToolCallExecution_def)
  have "distinct (map fst ?ms)" and "list_all (\<lambda>k. k \<in> set ?names) (map fst ?ms)"
    by (simp_all add: omitempty_def)
  with obj obtain kvs where kvs: "j = JObject kvs" "object ?ms = Inr (JObject kvs)"
    and cov: "covered ?names kvs"
    by (rule struct_of_object)
  have "field decString [] ''tool_name'' kvs = Inr (toValidUTF8 (tc_ToolName tc))"
    by (rule string_field [OF kvs(2)]) simp
  moreover have "field decString [] ''tool_id'' kvs = Inr (toValidUTF8 (tc_ToolID tc))"
    by (rule string_field [OF kvs(2)]) simp
  moreover have "\<exists>x. field decMap None ''arguments'' kvs = Inr x"
    by (rule map_field [OF kvs(2), of _ "tc_Arguments tc"]) simp
  moreover have "field decString [] ''result'' kvs = Inr (toValidUTF8 (tc_Result tc))"
    by (rule string_field [OF kvs(2)]) simp
  moreover have "field decString [] ''start_time'' kvs = Inr (toValidUTF8 (tc_StartTime tc))"
    by (rule string_field [OF kvs(2)]) simp
  moreover have "field decString [] ''end_time'' kvs = Inr (toValidUTF8 (tc_EndTime tc))"
    by (rule string_field [OF kvs(2)]) simp
  moreover have "field decInt 0 ''duration_ms'' kvs = Inr (tc_DurationMs tc)"
    by (rule int_field [OF kvs(2)]) simp
  moreover have "field decBool False ''success'' kvs = Inr (tc_Success tc)"
    by (rule bool_field [OF kvs(2)]) simp
  moreover have "field decString [] ''error'' kvs = Inr (toValidUTF8 (tc_Error tc))"
    by (rule optional_string_field [OF kvs(2)]) (simp add: omitempty_def)
  ultimately show ?thesis
    unfolding decToolCallExecution_def kvs(1) using cov
    by (auto simp: struct_def bnd_def toolMessage_def coerceMessage_def)
qed

lemma optional_field:
  assumes "object members = Inr (JObject kvs)"
    and "map_of members n = (if c then None else Some e)"
    and "\<And>v. \<not> c \<Longrightarrow> e = Inr v \<Longrightarrow> \<exists>x. dec v = Inr x \<and> P x"
    and "c \<Longrightarrow> P zero"
  shows "\<exists>x. field dec zero n kvs = Inr x \<and> P x"
proof (cases c)
  case True
  then show ?thesis
    using absent_field [OF assms(1), of n dec zero] assms(2,4) by simp
next
  case False
  then show ?thesis
    using member_field [OF assms(1), of n e dec P zero] assms(2,3) by simp
qed

lemma encSessionMetadata_dec:
  assumes "encSessionMetadata sm = Inr j"
  shows "\<exists>sm'. decSessionMetadata j = Inr sm'"
proof -
  let ?names = "[''environment'', ''tags'', ''custom_fields'', ''response_time_ms'',
        ''total_cost'', ''additional_info'']"
  let ?ms = "[(''environment'', encString (sm_Environment sm)),
         (''tags'', encSlice encString (sm_Tags sm))]
        @ omitempty (emptyMap (sm_CustomFields sm))
            (''custom_fields'', encMap (sm_CustomFields sm))
        @ [(''response_time_ms'', encInt (sm_ResponseTimeMs sm))]
        @ omitempty (sm_TotalCost sm = 0 \<or> sm_TotalCost sm = 0x8000000000000000)
            (''total_cost'', encFloat (sm_TotalCost sm))
        @ omitempty (emptyMap (sm_AdditionalInfo sm))
            (''additional_info'', encMap (sm_AdditionalInfo sm))"
  have obj: "object ?ms = Inr j" using assms by (simp add: encSessionMetadata_def)
  have "distinct (map fst ?ms)" and "list_all (\<lambda>k. k \<in> set ?names) (map fst ?ms)"
    by (simp_all add: omitempty_def)
  with obj obtain kvs where kvs: "j = JObject kvs" "object ?ms = Inr (JObject kvs)"
    and cov: "covered ?names kvs"
    by (rule struct_of_object)
  have "field decString [] ''environment'' kvs = Inr (toValidUTF8 (sm_Environment sm))"
    by (rule string_field [OF kvs(2)]) simp
  moreover have "\<exists>x. field (decSlice decString) None ''tags'' kvs = Inr x"
  proof (rule struct_field [OF kvs(2), of _ "encSlice encString (sm_Tags sm)"])
    show "map_of ?ms ''tags'' = Some (encSlice encString (sm_Tags sm))" by simp
  next
    fix v assume "encSlice encString (sm_Tags sm) = Inr v"
    then show "\<exists>x. decSlice decString v = Inr x"
      using encSlice_decSlice [of encString "sm_Tags sm" v decString "\<lambda>x y. True"]
        decString_encString by blast
  qed
  moreover have "\<exists>x. field decMap None ''custom_fields'' kvs = Inr x"
    by (rule optional_map_field [OF kvs(2), of _ "sm_CustomFields sm"]) (simp add: omitempty_def)
  moreover have "field decInt 0 ''response_time_ms'' kvs = Inr (sm_ResponseTimeMs sm)"
    by (rule int_field [OF kvs(2)]) (simp add: omitempty_def)
  moreover have "\<exists>x. field decFloat 0 ''total_cost'' kvs = Inr x \<and> True"
  proof (rule optional_field [OF kvs(2), of _
        "sm_TotalCost sm = 0 \<or> sm_TotalCost sm = 0x8000000000000000"
        "encFloat (sm_TotalCost sm)"])
    show "map_of ?ms ''total_cost'' =
        (if sm_TotalCost sm = 0 \<or> sm_TotalCost sm = 0x8000000000000000 then None
         else Some (encFloat (sm_TotalCost sm)))"
      by (simp add: omitempty_def)
  next
    fix v assume "encFloat (sm_TotalCost sm) = Inr v"
    then show "\<exists>x. decFloat v = Inr x \<and> True" using decFloat_encFloat by blast
  qed simp
  moreover have "\<exists>x. field decMap None ''additional_info'' kvs = Inr x"
    by (rule optional_map_field [OF kvs(2), of _ "sm_AdditionalInfo sm"]) (simp add: omitempty_def)
  ultimately show ?thesis
    unfolding decSessionMetadata_def kvs(1) using cov by (auto simp: struct_def bnd_def)
qed

lemma encConversationTurn_dec:
  assumes "encConversationTurn turn = Inr j"
  shows "\<exists>turn'. decConversationTurn j = Inr turn' \<and>
     turnMessages turn' = map coerceMessage (turnMessages turn)"
proof -
  let ?names = "[''round'', ''timestamp'', ''turn_id'', ''user_input'', ''llm_response'',
        ''tool_calls'', ''token_usage'']"
  let ?ms = "[(''round'', encInt (ct_Round turn)),
         (''timestamp'', encString (ct_Timestamp turn)),
         (''turn_id'', encString (ct_TurnID turn)),
         (''user_input'', encUserMessage (ct_UserInput turn)),
         (''llm_response'', encLLMResponse (ct_LLMResponse turn))]
        @ omitempty (elems (ct_ToolCalls turn) = [])
            (''tool_calls'', encSlice encToolCallExecution (ct_ToolCalls turn))
        @ [(''token_usage'', encTokenUsage (ct_TokenUsage turn))]"
  let ?R = "\<lambda>tc tc'. toolMessage tc' = coerceMessage (toolMessage tc)"
  have obj: "object ?ms = Inr j" using assms by (simp add: encConversationTurn_def)
  have "distinct (map fst ?ms)" and "list_all (\<lambda>k. k \<in> set ?names) (map fst ?ms)"
    by (simp_all add: omitempty_def)
  with obj obtain kvs where kvs: "j = JObject kvs" "object ?ms = Inr (JObject kvs)"
    and cov: "covered ?names kvs"
    by (rule struct_of_object)
  have f1: "field decInt 0 ''round'' kvs = Inr (ct_Round turn)"
    by (rule int_field [OF kvs(2)]) simp
  have f2: "field decString [] ''timestamp'' kvs = Inr (toValidUTF8 (ct_Timestamp turn))"
    by (rule string_field [OF kvs(2)]) simp
  have f3: "field decString [] ''turn_id'' kvs = Inr (toValidUTF8 (ct_TurnID turn))"
    by (rule string_field [OF kvs(2)]) simp
  have "\<exists>x. field decUserMessage (ct_UserInput zeroTurn) ''user_input'' kvs = Inr x \<and>
      um_Content x = toValidUTF8 (um_Content (ct_UserInput turn))"
    by (rule member_field [OF kvs(2), of _ "encUserMessage (ct_UserInput turn)"])
      (simp, rule encUserMessage_dec)
  then obtain um where f4: "field decUserMessage (ct_UserInput zeroTurn) ''user_input'' kvs = Inr um"
    and um: "um_Content um = toValidUTF8 (um_Content (ct_UserInput turn))" by blast
  have "\<exists>x. field decLLMResponse (ct_LLMResponse zeroTurn) ''llm_response'' kvs = Inr x \<and>
      llm_Content x = toValidUTF8 (llm_Content (ct_LLMResponse turn))"
    by (rule member_field [OF kvs(2), of _ "encLLMResponse (ct_LLMResponse turn)"])
      (simp, rule encLLMResponse_dec)
  then obtain llm where
    f5: "field decLLMResponse (ct_LLMResponse zeroTurn) ''llm_response'' kvs = Inr llm"
    and llm: "llm_Content llm = toValidUTF8 (llm_Content (ct_LLMResponse turn))" by blast
  have "\<exists>x. field (decSlice decToolCallExecution) None ''tool_calls'' kvs = Inr x \<and>
      list_all2 ?R (elems (ct_ToolCalls turn)) (elems x)"
  proof (rule optional_field [OF kvs(2), of _ "elems (ct_ToolCalls turn) = []"
        "encSlice encToolCallExecution (ct_ToolCalls turn)"])
    show "map_of ?ms ''tool_calls'' =
        (if elems (ct_ToolCalls turn) = [] then None
         else Some (encSlice encToolCallExecution (ct_ToolCalls turn)))"
      by (simp add: omitempty_def)
  next
    fix v assume "encSlice encToolCallExecution (ct_ToolCalls turn) = Inr v"
    then show "\<exists>x. decSlice decToolCallExecution v = Inr x \<and>
        list_all2 ?R (elems (ct_ToolCalls turn)) (elems x)"
      using encSlice_decSlice [of encToolCallExecution "ct_ToolCalls turn" v
          decToolCallExecution ?R] encToolCallExecution_dec by blast
  next
    assume "elems (ct_ToolCalls turn) = []"
    then show "list_all2 ?R (elems (ct_ToolCalls turn)) (elems None)"
      by (simp add: elems_def)
  qed
  then obtain tcs where
    f6: "field (decSlice decToolCallExecution) None ''tool_calls'' kvs = Inr tcs"
    and tcs: "list_all2 ?R (elems (ct_ToolCalls turn)) (elems tcs)" by blast
  have "\<exists>x. field decTokenUsage (ct_TokenUsage zeroTurn) ''token_usage'' kvs = Inr x"
    by (rule struct_field [OF kvs(2), of _ "encTokenUsage (ct_TokenUsage turn)"])
      (simp add: omitempty_def, rule encTokenUsage_dec)
  then obtain tu where f7: "field decTokenUsage (ct_TokenUsage zeroTurn) ''token_usage'' kvs = Inr tu"
    by blast
  let ?turn' = "\<lparr>ct_Round = ct_Round turn, ct_Timestamp = toValidUTF8 (ct_Timestamp turn),
      ct_TurnID = toValidUTF8 (ct_TurnID turn), ct_UserInput = um, ct_LLMResponse = llm,
      ct_ToolCalls = tcs, ct_TokenUsage = tu\<rparr>"
  have d: "decConversationTurn j = Inr ?turn'"
    unfolding decConversationTurn_def kvs(1) using cov f1 f2 f3 f4 f5 f6 f7
    by (simp add: struct_def bnd_def)
  have "map toolMessage (elems tcs) = map coerceMessage (map toolMessage (elems (ct_ToolCalls turn)))"
    using tcs by (induction rule: list_all2_induct) simp_all
  then have "turnMessages ?turn' = map coerceMessage (turnMessages turn)"
    using um llm by (simp add: turnMessages_def coerceMessage_def)
  with d show ?thesis by blast
qed

lemma encReplayContext_dec:
  assumes "encReplayContext r = Inr j"
  shows "\<exists>r'. Unmarshal j = Inr r' \<and>
     ToOpenAIMessages r' = map coerceMessage (ToOpenAIMessages r)"
proof -
  let ?names = "[''session_id'', ''user_id'', ''trace_id'', ''timestamp'', ''model_config'',
        ''system_prompt'', ''tools'', ''conversation_history'', ''metadata'']"
  let ?ms = "[(''session_id'', encString (rc_SessionID r)),
        (''user_id'', encString (rc_UserID r)),
        (''trace_id'', encString (rc_TraceID r)),
        (''timestamp'', encTime (rc_Timestamp r)),
        (''model_config'', encModelConfig (rc_ModelConfig r)),
        (''system_prompt'', encSystemPrompt (rc_SystemPrompt r)),
        (''tools'', encSlice encToolDefinition (rc_Tools r)),
        (''conversation_history'', encSlice encConversationTurn (rc_ConversationHistory r)),
        (''metadata'', encSessionMetadata (rc_Metadata r))]"
  let ?R = "\<lambda>turn turn'. turnMessages turn' = map coerceMessage (turnMessages turn)"
  have obj: "object ?ms = Inr j" using assms by (simp add: encReplayContext_def)
  have "distinct (map fst ?ms)" and "list_all (\<lambda>k. k \<in> set ?names) (map fst ?ms)"
    by simp_all
  with obj obtain kvs where kvs: "j = JObject kvs" "object ?ms = Inr (JObject kvs)"
    and cov: "covered ?names kvs"
    by (rule struct_of_object)
  have f1: "field decString [] ''session_id'' kvs = Inr (toValidUTF8 (rc_SessionID r))"
    by (rule string_field [OF kvs(2)]) simp
  have f2: "field decString [] ''user_id'' kvs = Inr (toValidUTF8 (rc_UserID r))"
    by (rule string_field [OF kvs(2)]) simp
  have f3: "field decString [] ''trace_id'' kvs = Inr (toValidUTF8 (rc_TraceID r))"
    by (rule string_field [OF kvs(2)]) simp
  have "\<exists>x. field decTime zeroTime ''timestamp'' kvs = Inr x"
    by (rule struct_field [OF kvs(2), of _ "encTime (rc_Timestamp r)"])
      (simp, rule decTime_encTime)
  then obtain ts where f4: "field decTime zeroTime ''timestamp'' kvs = Inr ts" by blast
  have "\<exists>x. field decModelConfig zeroModelConfig ''model_config'' kvs = Inr x"
    by (rule struct_field [OF kvs(2), of _ "encModelConfig (rc_ModelConfig r)"])
      (simp, rule encModelConfig_dec)
  then obtain mc where f5: "field decModelConfig zeroModelConfig ''model_config'' kvs = Inr mc"
    by blast
  have "\<exists>x. field decSystemPrompt zeroSystemPrompt ''system_prompt'' kvs = Inr x \<and>
      sp_Content x = toValidUTF8 (sp_Content (rc_SystemPrompt r))"
    by (rule member_field [OF kvs(2), of _ "encSystemPrompt (rc_SystemPrompt r)"])
      (simp, rule encSystemPrompt_dec)
  then obtain sp where f6: "field decSystemPrompt zeroSystemPrompt ''system_prompt'' kvs = Inr sp"
    and sp: "sp_Content sp = toValidUTF8 (sp_Content (rc_SystemPrompt r))" by blast
  have "\<exists>x. field (decSlice decToolDefinition) None ''tools'' kvs = Inr x"
  proof (rule struct_field [OF kvs(2), of _ "encSlice encToolDefinition (rc_Tools r)"])
    show "map_of ?ms ''tools'' = Some (encSlice encToolDefinition (rc_Tools r))" by simp
  next
    fix v assume "encSlice encToolDefinition (rc_Tools r) = Inr v"
    then show "\<exists>x. decSlice decToolDefinition v = Inr x"
      using encSlice_decSlice [of encToolDefinition "rc_Tools r" v decToolDefinition
          "\<lambda>x y. True"] encToolDefinition_dec by blast
  qed
  then obtain tools where f7: "field (decSlice decToolDefinition) None ''tools'' kvs = Inr tools"
    by blast
  have "\<exists>x. field (decSlice decConversationTurn) None ''conversation_history'' kvs = Inr x \<and>
      list_all2 ?R (elems (rc_ConversationHistory r)) (elems x)"
  proof (rule member_field [OF kvs(2), of _
        "encSlice encConversationTurn (rc_ConversationHistory r)"])
    show "map_of ?ms ''conversation_history'' =
        Some (encSlice encConversationTurn (rc_ConversationHistory r))" by simp
  next
    fix v assume "encSlice encConversationTurn (rc_ConversationHistory r) = Inr v"
    then show "\<exists>x. decSlice decConversationTurn v = Inr x \<and>
        list_all2 ?R (elems (rc_ConversationHistory r)) (elems x)"
      using encSlice_decSlice [of encConversationTurn "rc_ConversationHistory r" v
          decConversationTurn ?R] encConversationTurn_dec by blast
  qed
  then obtain hist where
    f8: "field (decSlice decConversationTurn) None ''conversation_history'' kvs = Inr hist"
    and hist: "list_all2 ?R (elems (rc_ConversationHistory r)) (elems hist)" by blast
  have "\<exists>x. field decSessionMetadata zeroSessionMetadata ''metadata'' kvs = Inr x"
    by (rule struct_field [OF kvs(2), of _ "encSessionMetadata (rc_Metadata r)"])
      (simp, rule encSessionMetadata_dec)
  then obtain md where f9: "field decSessionMetadata zeroSessionMetadata ''metadata'' kvs = Inr md"
    by blast
  let ?r' = "\<lparr>rc_SessionID = toValidUTF8 (rc_SessionID r), rc_UserID = toValidUTF8 (rc_UserID r),
      rc_TraceID = toValidUTF8 (rc_TraceID r), rc_Timestamp = ts, rc_ModelConfig = mc,
      rc_SystemPrompt = sp, rc_Tools = tools, rc_ConversationHistory = hist,
      rc_Metadata = md\<rparr>"
  have d: "Unmarshal j = Inr ?r'"
    unfolding Unmarshal_def kvs(1) using cov f1 f2 f3 f4 f5 f6 f7 f8 f9
    by (simp add: struct_def bnd_def)
  have "concat (map turnMessages (elems hist)) =
      map coerceMessage (concat (map turnMessages (elems (rc_ConversationHistory r))))"
    using hist by (induction rule: list_all2_induct) simp_all
  then have "ToOpenAIMessages ?r' = map coerceMessage (ToOpenAIMessages r)"
    using sp by (simp add: ToOpenAIMessages_def appendTurnMessages_concat coerceMessage_def
        ChatMessageRoleSystem_def)
  with d show ?thesis by blast
qed

lemma roundTripMessages_coerce:
  assumes "ToJSON r = Inr doc"
  shows "roundTripMessages r = Inr (map coerceMessage (ToOpenAIMessages r))"
proof -
  have "encReplayContext r = Inr doc"
    using assms by (simp add: ToJSON_def split: sum.splits)
  then obtain r' where "Unmarshal doc = Inr r'"
    "ToOpenAIMessages r' = map coerceMessage (ToOpenAIMessages r)"
    using encReplayContext_dec by blast
  then show ?thesis
    using assms by (simp add: roundTripMessages_def roundTrip_def bnd_def)
qed

lemma coerceMessage_valid: "validMessage m \<Longrightarrow> coerceMessage m = m"
  by (simp add: validMessage_def coerceMessage_def toValidUTF8_fixed)

lemma map_coerceMessage_valid: "list_all validMessage ms \<Longrightarrow> map coerceMessage ms = ms"
  by (induction ms) (simp_all add: coerceMessage_valid)

lemma exampleContext_encodes: "succeeds (ToJSON exampleContext)"
  by code_simp

lemma invalidTextContext_encodes: "succeeds (ToJSON invalidTextContext)"
  by code_simp

lemma nanContext_fails: "ToJSON nanContext = Inl UnsupportedValueError"
  by code_simp

lemma exampleContext_messages:
  "ToOpenAIMessages exampleContext =
     [\<lparr>Role = ''system'', Content = ''sys'', ToolCallID = []\<rparr>,
      \<lparr>Role = ''user'', Content = ''Hi'', ToolCallID = []\<rparr>,
      \<lparr>Role = ''assistant'', Content = ''Hello'', ToolCallID = []\<rparr>,
      \<lparr>Role = ''user'', Content = ''Bye'', ToolCallID = []\<rparr>,
      \<lparr>Role = ''assistant'', Content = ''Goodbye'', ToolCallID = []\<rparr>,
      \<lparr>Role = ''tool'', Content = ''ok'', ToolCallID = ''t1''\<rparr>]"
  by code_simp

lemma invalidTextContext_messages:
  "ToOpenAIMessages invalidTextContext =
     [\<lparr>Role = ''system'', Content = [CHR 0xFF], ToolCallID = []\<rparr>,
      \<lparr>Role = ''user'', Content = ''Hi'', ToolCallID = []\<rparr>,
      \<lparr>Role = ''assistant'', Content = ''Hello'', ToolCallID = []\<rparr>,
      \<lparr>Role = ''user'', Content = ''Bye'', ToolCallID = []\<rparr>,
      \<lparr>Role = ''assistant'', Content = ''Goodbye'', ToolCallID = []\<rparr>,
      \<lparr>Role = ''tool'', Content = ''ok'', ToolCallID = ''t1''\<rparr>]"
  by code_simp

lemma exampleContext_valid: "list_all validMessage (ToOpenAIMessages exampleContext)"
  unfolding exampleContext_messages by code_simp

text \<open>
  Claim C1 fails as stated. The projection of the example context has 6 messages, not
  7. A context whose system prompt is the byte FF is written with U+FFFD in its place,
  so the projection after the round trip differs from the original; and a context with
  a NaN temperature is not encoded at all.
\<close>

theorem roundtrip_counterexample:
  "length (ToOpenAIMessages exampleContext) = 6 \<and>
   ToOpenAIMessages invalidTextContext =
     [\<lparr>Role = ''system'', Content = [CHR 0xFF], ToolCallID = []\<rparr>,
      \<lparr>Role = ''user'', Content = ''Hi'', ToolCallID = []\<rparr>,
      \<lparr>Role = ''assistant'', Content = ''Hello'', ToolCallID = []\<rparr>,
      \<lparr>Role = ''user'', Content = ''Bye'', ToolCallID = []\<rparr>,
      \<lparr>Role = ''assistant'', Content = ''Goodbye'', ToolCallID = []\<rparr>,
      \<lparr>Role = ''tool'', Content = ''ok'', ToolCallID = ''t1''\<rparr>] \<and>
   roundTripMessages invalidTextContext =
     Inr [\<lparr>Role = ''system'', Content = [CHR 0xEF, CHR 0xBF, CHR 0xBD], ToolCallID = []\<rparr>,
      \<lparr>Role = ''user'', Content = ''Hi'', ToolCallID = []\<rparr>,
      \<lparr>Role = ''assistant'', Content = ''Hello'', ToolCallID = []\<rparr>,
      \<lparr>Role = ''user'', Content = ''Bye'', ToolCallID = []\<rparr>,
      \<lparr>Role = ''assistant'', Content = ''Goodbye'', ToolCallID = []\<rparr>,
      \<lparr>Role = ''tool'', Content = ''ok'', ToolCallID = ''t1''\<rparr>] \<and>
   roundTripMessages invalidTextContext \<noteq> Inr (ToOpenAIMessages invalidTextContext) \<and>
   roundTripMessages nanContext = Inl UnsupportedValueError"
proof -
  have a: "length (ToOpenAIMessages exampleContext) = 6"
    by (simp add: exampleContext_messages)
  obtain doc where "ToJSON invalidTextContext = Inr doc"
    using invalidTextContext_encodes by (auto simp: succeeds_def split: sum.splits)
  then have "roundTripMessages invalidTextContext =
      Inr (map coerceMessage (ToOpenAIMessages invalidTextContext))"
    by (rule roundTripMessages_coerce)
  then have b: "roundTripMessages invalidTextContext =
     Inr [\<lparr>Role = ''system'', Content = [CHR 0xEF, CHR 0xBF, CHR 0xBD], ToolCallID = []\<rparr>,
      \<lparr>Role = ''user'', Content = ''Hi'', ToolCallID = []\<rparr>,
      \<lparr>Role = ''assistant'', Content = ''Hello'', ToolCallID = []\<rparr>,
      \<lparr>Role = ''user'', Content = ''Bye'', ToolCallID = []\<rparr>,
      \<lparr>Role = ''assistant'', Content = ''Goodbye'', ToolCallID = []\<rparr>,
      \<lparr>Role = ''tool'', Content = ''ok'', ToolCallID = ''t1''\<rparr>]"
    unfolding invalidTextContext_messages
    by (simp add: coerceMessage_def byte_def between_def replacement_def)
  have c: "roundTripMessages nanContext = Inl UnsupportedValueError"
    using nanContext_fails by (simp add: roundTripMessages_def roundTrip_def bnd_def)
  show ?thesis
    using a b c by (simp add: invalidTextContext_messages)
qed

text \<open>
  Claim C1, as amended. For every context that \<^verbatim>\<open>ToJSON\<close> encodes without error,
  reading the document back succeeds, and the projection of the result is the
  projection of the original with every content and tool call ID coerced to valid
  UTF-8; so the two projections are equal when those strings are valid UTF-8. For the
  example context (system prompt "sys", one tool, two turns, one tool call with result
  "ok" and tool ID "t1") both projections are the same 6 messages: system "sys", user
  "Hi", assistant "Hello", user "Bye", assistant "Goodbye", tool "ok" with tool call ID
  "t1".
\<close>

theorem roundtrip_projection:
  "(\<forall>r doc. ToJSON r = Inr doc \<longrightarrow>
      (\<exists>r'. Unmarshal doc = Inr r' \<and>
         ToOpenAIMessages r' = map coerceMessage (ToOpenAIMessages r)) \<and>
      (list_all validMessage (ToOpenAIMessages r) \<longrightarrow>
         roundTripMessages r = Inr (ToOpenAIMessages r))) \<and>
   ToOpenAIMessages exampleContext =
     [\<lparr>Role = ''system'', Content = ''sys'', ToolCallID = []\<rparr>,
      \<lparr>Role = ''user'', Content = ''Hi'', ToolCallID = []\<rparr>,
      \<lparr>Role = ''assistant'', Content = ''Hello'', ToolCallID = []\<rparr>,
      \<lparr>Role = ''user'', Content = ''Bye'', ToolCallID = []\<rparr>,
      \<lparr>Role = ''assistant'', Content = ''Goodbye'', ToolCallID = []\<rparr>,
      \<lparr>Role = ''tool'', Content = ''ok'', ToolCallID = ''t1''\<rparr>] \<and>
   roundTripMessages exampleContext = Inr (ToOpenAIMessages exampleContext)"
proof (intro conjI allI impI)
  fix r doc
  assume enc: "ToJSON r = Inr doc"
  then have "encReplayContext r = Inr doc"
    by (simp add: ToJSON_def split: sum.splits)
  then show "\<exists>r'. Unmarshal doc = Inr r' \<and>
      ToOpenAIMessages r' = map coerceMessage (ToOpenAIMessages r)"
    by (rule encReplayContext_dec)
  assume "list_all validMessage (ToOpenAIMessages r)"
  then show "roundTripMessages r = Inr (ToOpenAIMessages r)"
    using roundTripMessages_coerce [OF enc] by (simp add: map_coerceMessage_valid)
next
  show "ToOpenAIMessages exampleContext =
     [\<lparr>Role = ''system'', Content = ''sys'', ToolCallID = []\<rparr>,
      \<lparr>Role = ''user'', Content = ''Hi'', ToolCallID = []\<rparr>,
      \<lparr>Role = ''assistant'', Content = ''Hello'', ToolCallID = []\<rparr>,
      \<lparr>Role = ''user'', Content = ''Bye'', ToolCallID = []\<rparr>,
      \<lparr>Role = ''assistant'', Content = ''Goodbye'', ToolCallID = []\<rparr>,
      \<lparr>Role = ''tool'', Content = ''ok'', ToolCallID = ''t1''\<rparr>]"
    by (rule exampleContext_messages)
next
  obtain doc where "ToJSON exampleContext = Inr doc"
    using exampleContext_encodes by (auto simp: succeeds_def split: sum.splits)
  then show "roundTripMessages exampleContext = Inr (ToOpenAIMessages exampleContext)"
    using roundTripMessages_coerce exampleContext_valid
    by (simp add: map_coerceMessage_valid)
qed

theorem roundtrip_projection_witness:
  "succeeds (ToJSON invalidTextContext) \<and>
   roundTripMessages invalidTextContext =
     Inr (map coerceMessage (ToOpenAIMessages invalidTextContext)) \<and>
   succeeds (ToJSON exampleContext) \<and>
   list_all validMessage (ToOpenAIMessages exampleContext) \<and>
   length (ToOpenAIMessages exampleContext) = 6 \<and>
   roundTripMessages exampleContext = Inr (ToOpenAIMessages exampleContext)"
proof -
  obtain doc where doc: "ToJSON invalidTextContext = Inr doc"
    using invalidTextContext_encodes by (auto simp: succeeds_def split: sum.splits)
  then obtain r' where "Unmarshal doc = Inr r'"
    "ToOpenAIMessages r' = map coerceMessage (ToOpenAIMessages invalidTextContext)"
    using roundtrip_projection by blast
  then have a: "roundTripMessages invalidTextContext =
     Inr (map coerceMessage (ToOpenAIMessages invalidTextContext))"
    using doc by (simp add: roundTripMessages_def roundTrip_def bnd_def)
  obtain doc' where doc': "ToJSON exampleContext = Inr doc'"
    using exampleContext_encodes by (auto simp: succeeds_def split: sum.splits)
  have b: "roundTripMessages exampleContext = Inr (ToOpenAIMessages exampleContext)"
    using roundtrip_projection doc' exampleContext_valid by blast
  have c: "length (ToOpenAIMessages exampleContext) = 6"
    using roundtrip_projection by simp
  show ?thesis
    using a b c invalidTextContext_encodes exampleContext_encodes exampleContext_valid by simp
qed

end
